theory Spec2Isabelle
  imports Main "HOL-Library.Sublist" "HOL-Library.AList"
begin

section \<open>Values exchanged with the remote API\<close>

text \<open>
  The crawlers read the remote state with \<^verbatim>\<open>r.json()\<close> and post dictionaries as JSON.
  A decoded JSON value is a Python object; a dictionary keeps its keys in insertion
  order, so it is an association list with \<^verbatim>\<open>d.get(k)\<close> read by \<open>map_of\<close>.
  Numbers are modelled by integers. Characters are HOL characters (code points below
  256), where the regular expression class \<^verbatim>\<open>\d\<close> matches exactly \<^verbatim>\<open>0\<close> to \<^verbatim>\<open>9\<close>.
\<close>

datatype json =
    JNull
  | JBool bool
  | JNum int
  | JStr string
  | JList "json list"
  | JDict "(string \<times> json) list"

text \<open>The exceptions of the Python code that the model distinguishes.\<close>

datatype error =
    AttributeError
  | IndexError
  | TypeError
  | ValueError string
  | KeyError
  | JSONDecodeError
  | HTTPError nat
  | ConnectionError

text \<open>
  \<^verbatim>\<open>obj.get(key)\<close>: only a dictionary has the method; a missing key gives \<^verbatim>\<open>None\<close>.
\<close>

fun py_get :: "json \<Rightarrow> string \<Rightarrow> error + json" where
  "py_get (JDict kvs) k = Inr (case map_of kvs k of None \<Rightarrow> JNull | Some v \<Rightarrow> v)"
| "py_get _ k = Inl AttributeError"

text \<open>The test \<^verbatim>\<open>db.get(slot) == "-"\<close> of both planners.\<close>

definition get_is_placeholder :: "json \<Rightarrow> string \<Rightarrow> error + bool" where
  "get_is_placeholder db slot =
     (case py_get db slot of Inl e \<Rightarrow> Inl e | Inr v \<Rightarrow> Inr (v = JStr ''-''))"

section \<open>Cumulative planner (dear\_crawler.py)\<close>

text \<open>
  \<^verbatim>\<open>get_needed_slots(db)\<close> reads the hour of the current IST time; the hour is a
  parameter here. Each test is \<^verbatim>\<open>hour >= H and db.get(slot) == "-"\<close>: Python's
  \<^verbatim>\<open>and\<close> does not evaluate \<^verbatim>\<open>db.get\<close> when the hour test fails.
\<close>

definition hour_and_placeholder :: "int \<Rightarrow> int \<Rightarrow> json \<Rightarrow> string \<Rightarrow> error + bool" where
  "hour_and_placeholder hour h db slot =
     (if hour \<ge> h then get_is_placeholder db slot else Inr False)"

definition get_needed_slots :: "int \<Rightarrow> json \<Rightarrow> error + string list" where
  "get_needed_slots hour db =
     (case hour_and_placeholder hour 13 db ''mor'' of
        Inl e \<Rightarrow> Inl e
      | Inr b1 \<Rightarrow>
          (case hour_and_placeholder hour 18 db ''day'' of
             Inl e \<Rightarrow> Inl e
           | Inr b2 \<Rightarrow>
               (case hour_and_placeholder hour 20 db ''evn'' of
                  Inl e \<Rightarrow> Inl e
                | Inr b3 \<Rightarrow>
                    Inr ((if b1 then [''mor''] else []) @
                         (if b2 then [''day''] else []) @
                         (if b3 then [''evn''] else [])))))"

section \<open>Sequential planner (singapore\_crawler.py)\<close>

definition TIME_ORDER :: "(string \<times> string) list" where
  "TIME_ORDER = [(''12.30'', ''mor''), (''16.30'', ''day''), (''20.30'', ''evn'')]"

text \<open>
  The loop of \<^verbatim>\<open>slots_to_crawl\<close> over the remaining pairs of \<^verbatim>\<open>TIME_ORDER\<close>, with the
  list built so far; \<^verbatim>\<open>break\<close> returns it.
\<close>

fun slots_loop :: "json \<Rightarrow> string \<Rightarrow> (string \<times> string) list \<Rightarrow> string list \<Rightarrow> error + string list" where
  "slots_loop db current_slot [] result = Inr result"
| "slots_loop db current_slot ((label, slot) # rest) result =
     (case get_is_placeholder db slot of
        Inl e \<Rightarrow> Inl e
      | Inr b \<Rightarrow>
          (let result' = (if b then result @ [slot] else result)
           in if slot = current_slot then Inr result'
              else slots_loop db current_slot rest result'))"

definition slots_to_crawl :: "json \<Rightarrow> string \<Rightarrow> error + string list" where
  "slots_to_crawl db current_slot = slots_loop db current_slot TIME_ORDER []"

text \<open>The position of a slot in the declared sequence mor, day, evn.\<close>

definition slot_pos :: "string \<Rightarrow> nat" where
  "slot_pos s = (if s = ''mor'' then 0 else if s = ''day'' then 1 else 2)"

section \<open>State fetcher (both crawlers)\<close>

text \<open>
  The outcome of \<^verbatim>\<open>session.get\<close> is an exception or a response. A response has a status
  code and a body; \<^verbatim>\<open>r.json()\<close> raises when the body is not JSON (\<open>json_body = None\<close>).
\<close>

datatype http_response = Response (status_code: nat) (json_body: "json option")

text \<open>\<^verbatim>\<open>r.raise_for_status()\<close> raises for the statuses 400 to 599.\<close>

definition raise_for_status :: "http_response \<Rightarrow> error + unit" where
  "raise_for_status r =
     (if 400 \<le> status_code r \<and> status_code r < 600 then Inl (HTTPError (status_code r))
      else Inr ())"

definition response_json :: "http_response \<Rightarrow> error + json" where
  "response_json r = (case json_body r of None \<Rightarrow> Inl JSONDecodeError | Some d \<Rightarrow> Inr d)"

definition fresh_record :: "string \<Rightarrow> json" where
  "fresh_record today =
     JDict [(''date'', JStr today), (''mor'', JStr ''-''), (''day'', JStr ''-''), (''evn'', JStr ''-'')]"

text \<open>
  The loop \<^verbatim>\<open>for entry in data: if entry.get("date") == today: return entry\<close>;
  \<open>Inr None\<close> when the loop ends without a return.
\<close>

fun find_today :: "string \<Rightarrow> json list \<Rightarrow> error + json option" where
  "find_today today [] = Inr None"
| "find_today today (entry # rest) =
     (case py_get entry ''date'' of
        Inl e \<Rightarrow> Inl e
      | Inr v \<Rightarrow> if v = JStr today then Inr (Some entry) else find_today today rest)"

text \<open>What follows \<^verbatim>\<open>data = r.json()\<close> inside the \<^verbatim>\<open>try\<close> block of both crawlers.\<close>

definition pick_record :: "string \<Rightarrow> json \<Rightarrow> error + json" where
  "pick_record today data =
     (case data of
        JList entries \<Rightarrow>
          (case find_today today entries of
             Inl e \<Rightarrow> Inl e
           | Inr (Some entry) \<Rightarrow> Inr entry
           | Inr None \<Rightarrow> Inr (fresh_record today))
      | _ \<Rightarrow> Inr data)"

text \<open>The \<^verbatim>\<open>try\<close> block of \<^verbatim>\<open>api_get_today_state\<close> in dear\_crawler.py.\<close>

definition dear_state_try :: "string \<Rightarrow> error + http_response \<Rightarrow> error + json" where
  "dear_state_try today got =
     (case got of
        Inl e \<Rightarrow> Inl e
      | Inr r \<Rightarrow>
          (case raise_for_status r of
             Inl e \<Rightarrow> Inl e
           | Inr _ \<Rightarrow>
               (case response_json r of
                  Inl e \<Rightarrow> Inl e
                | Inr data \<Rightarrow> pick_record today data)))"

text \<open>\<^verbatim>\<open>except Exception\<close>: every exception gives the fresh record.\<close>

definition dear_api_get_today_state :: "string \<Rightarrow> error + http_response \<Rightarrow> json" where
  "dear_api_get_today_state today got =
     (case dear_state_try today got of Inl e \<Rightarrow> fresh_record today | Inr v \<Rightarrow> v)"

text \<open>
  The \<^verbatim>\<open>try\<close> block of \<^verbatim>\<open>api_get_today_state\<close> in singapore\_crawler.py: the status 404
  returns the fresh record before \<^verbatim>\<open>raise_for_status\<close>.
\<close>

definition sg_state_try :: "string \<Rightarrow> error + http_response \<Rightarrow> error + json" where
  "sg_state_try today got =
     (case got of
        Inl e \<Rightarrow> Inl e
      | Inr r \<Rightarrow>
          if status_code r = 404 then Inr (fresh_record today)
          else
            (case raise_for_status r of
               Inl e \<Rightarrow> Inl e
             | Inr _ \<Rightarrow>
                 (case response_json r of
                    Inl e \<Rightarrow> Inl e
                  | Inr data \<Rightarrow> pick_record today data)))"

definition sg_api_get_today_state :: "string \<Rightarrow> error + http_response \<Rightarrow> json" where
  "sg_api_get_today_state today got =
     (case sg_state_try today got of Inl e \<Rightarrow> fresh_record today | Inr v \<Rightarrow> v)"

text \<open>Entries of a response: being a dictionary, and holding a given date.\<close>

fun is_dict :: "json \<Rightarrow> bool" where
  "is_dict (JDict kvs) = True"
| "is_dict _ = False"

fun has_date :: "string \<Rightarrow> json \<Rightarrow> bool" where
  "has_date today (JDict kvs) = (map_of kvs ''date'' = Some (JStr today))"
| "has_date today _ = False"

section \<open>Strings of Python\<close>

text \<open>\<^verbatim>\<open>sep.join(xs)\<close>.\<close>

fun py_join :: "string \<Rightarrow> string list \<Rightarrow> string" where
  "py_join sep [] = []"
| "py_join sep [x] = x"
| "py_join sep (x # y # ys) = x @ sep @ py_join sep (y # ys)"

text \<open>\<^verbatim>\<open>s[-1]\<close> raises on the empty string; \<^verbatim>\<open>s[-k:]\<close> and \<^verbatim>\<open>s[:k]\<close> never raise.\<close>

definition py_last_char :: "string \<Rightarrow> error + string" where
  "py_last_char s = (if s = [] then Inl IndexError else Inr [last s])"

definition py_slice_from_end :: "nat \<Rightarrow> string \<Rightarrow> string" where
  "py_slice_from_end k s = drop (length s - k) s"

definition py_slice_to :: "nat \<Rightarrow> string \<Rightarrow> string" where
  "py_slice_to k s = take k s"

text \<open>\<^verbatim>\<open>p in s\<close> on strings: \<open>p\<close> occurs in \<open>s\<close> as a contiguous substring.\<close>

fun py_in :: "string \<Rightarrow> string \<Rightarrow> bool" where
  "py_in p [] = (p = [])"
| "py_in p (c # cs) = (prefix p (c # cs) \<or> py_in p cs)"

text \<open>\<^verbatim>\<open>str(n)\<close> for an integer.\<close>

fun str_nat :: "nat \<Rightarrow> string" where
  "str_nat n =
     (if n < 10 then [char_of (48 + n)]
      else str_nat (n div 10) @ [char_of (48 + n mod 10)])"

definition str_int :: "int \<Rightarrow> string" where
  "str_int i = (if i < 0 then CHR ''-'' # str_nat (nat (- i)) else str_nat (nat i))"

section \<open>Regular expressions of the extractors\<close>

definition is_digit :: "char \<Rightarrow> bool" where
  "is_digit c = (c \<in> set ''0123456789'')"

text \<open>
  \<^verbatim>\<open>re.search(r'\d{5}', text)\<close>: the matcher tries the start positions from the left and
  succeeds at the first one where five digits follow; \<open>Some\<close> holds \<^verbatim>\<open>match.group(0)\<close>.
\<close>

fun re_search_d5 :: "string \<Rightarrow> string option" where
  "re_search_d5 [] = None"
| "re_search_d5 (c # cs) =
     (if 5 \<le> length (c # cs) \<and> list_all is_digit (take 5 (c # cs)) then Some (take 5 (c # cs))
      else re_search_d5 cs)"

text \<open>
  \<^verbatim>\<open>re.search(r"1st\s*Prize.*?(\d{4,})", text, re.IGNORECASE)\<close>. At a start position the
  literal \<^verbatim>\<open>1st\<close> is read without regard to case, \<^verbatim>\<open>\s*\<close> takes all the white space that
  follows (giving some back cannot help: \<^verbatim>\<open>Prize\<close> does not start with white space), the
  literal \<^verbatim>\<open>Prize\<close> is read, the lazy \<^verbatim>\<open>.*?\<close> advances over characters other than the newline
  to the first position where four digits follow, and the greedy group takes all the
  digits there. \<open>Some\<close> holds \<^verbatim>\<open>match.group(1)\<close>.
\<close>

definition lower_char :: "char \<Rightarrow> char" where
  "lower_char c =
     (if c \<in> set ''ABCDEFGHIJKLMNOPQRSTUVWXYZ'' then char_of (of_char c + (32::nat)) else c)"

definition is_space :: "char \<Rightarrow> bool" where
  "is_space c = (of_char c \<in> set [9, 10, 11, 12, 13, 28, 29, 30, 31, 32, 133, 160 :: nat])"

text \<open>Reading a lower-case literal without regard to case: the rest of the text, or \<open>None\<close>.\<close>

fun match_literal_ci :: "string \<Rightarrow> string \<Rightarrow> string option" where
  "match_literal_ci [] text = Some text"
| "match_literal_ci (p # ps) [] = None"
| "match_literal_ci (p # ps) (c # cs) =
     (if lower_char c = p then match_literal_ci ps cs else None)"

fun lazy_digits4 :: "string \<Rightarrow> string option" where
  "lazy_digits4 [] = None"
| "lazy_digits4 (c # cs) =
     (if 4 \<le> length (takeWhile is_digit (c # cs)) then Some (takeWhile is_digit (c # cs))
      else if c = CHR 0x0A then None
      else lazy_digits4 cs)"

definition match_prize_here :: "string \<Rightarrow> string option" where
  "match_prize_here text =
     (case match_literal_ci ''1st'' text of
        None \<Rightarrow> None
      | Some rest \<Rightarrow>
          (case match_literal_ci ''prize'' (dropWhile is_space rest) of
             None \<Rightarrow> None
           | Some rest' \<Rightarrow> lazy_digits4 rest'))"

fun re_search_prize :: "string \<Rightarrow> string option" where
  "re_search_prize [] = None"
| "re_search_prize (c # cs) =
     (case match_prize_here (c # cs) of
        Some num \<Rightarrow> Some num
      | None \<Rightarrow> re_search_prize cs)"

text \<open>
  Five digits stand at position \<open>i\<close> of a text. The matcher of \<^verbatim>\<open>\d{5}\<close> succeeds at a
  start position exactly when this holds there.
\<close>

definition digits5_at :: "string \<Rightarrow> nat \<Rightarrow> bool" where
  "digits5_at text i = (i + 5 \<le> length text \<and> list_all is_digit (take 5 (drop i text)))"

section \<open>Extractors\<close>

text \<open>
  \<^verbatim>\<open>extract_digits\<close> of dear\_crawler.py, from the fragments that the OCR reader returned
  (\<^verbatim>\<open>reader.readtext(image_bytes, detail=0)\<close>). The dictionary of the result is an
  association list.
\<close>

definition extract_digits :: "string list \<Rightarrow> error + (string \<times> string) list" where
  "extract_digits results =
     (let full_text = py_join '' '' results in
      case re_search_d5 full_text of
        None \<Rightarrow> Inl (ValueError (''1st Prize not detected. OCR saw: '' @ py_slice_to 50 full_text))
      | Some num \<Rightarrow>
          (case py_last_char num of
             Inl e \<Rightarrow> Inl e
           | Inr l1 \<Rightarrow>
               Inr [(''l1'', l1), (''l2'', py_slice_from_end 2 num), (''l3'', py_slice_from_end 3 num)]))"

text \<open>
  \<^verbatim>\<open>extract_digits_from_pdf_bytes\<close> of singapore\_crawler.py, from the texts of the pages
  of the document (\<^verbatim>\<open>page.get_text()\<close> for each page).
\<close>

definition extract_digits_from_pdf_bytes :: "string list \<Rightarrow> error + (string \<times> string) list" where
  "extract_digits_from_pdf_bytes pages =
     (let text = py_join [] pages in
      case re_search_prize text of
        None \<Rightarrow> Inl (ValueError ''1st Prize number not found in PDF'')
      | Some num \<Rightarrow>
          (case py_last_char num of
             Inl e \<Rightarrow> Inl e
           | Inr l1 \<Rightarrow>
               Inr [(''last_1'', l1), (''last_2'', py_slice_from_end 2 num),
                    (''last_3'', py_slice_from_end 3 num)]))"

section \<open>Publishers\<close>

text \<open>
  A request sent to the remote API: a JSON post (URL and payload) or the multipart post
  of the snapshot (URL, form fields and the bytes of the image).
\<close>

datatype request =
    PostJson string "(string \<times> json) list"
  | PostFax string "(string \<times> string) list" string

text \<open>
  The payload of both publishers:
  \<^verbatim>\<open>payload = {"date": today, "mor": "-", "day": "-", "evn": "-"}; payload[slot] = val\<close>.
  Assigning to a key of a dictionary replaces its value in place or appends the key.
\<close>

definition digit_payload :: "string \<Rightarrow> string \<Rightarrow> string \<Rightarrow> (string \<times> json) list" where
  "digit_payload today slot val =
     AList.update slot (JStr val)
       [(''date'', JStr today), (''mor'', JStr ''-''), (''day'', JStr ''-''), (''evn'', JStr ''-'')]"

definition API_DEAR :: string where
  "API_DEAR = ''https://supervillain.pythonanywhere.com/api/dear/''"

definition API_FAX :: string where
  "API_FAX = ''https://supervillain.pythonanywhere.com/api/fax/''"

text \<open>
  The world of one run of dear\_crawler.py: what each network call and each library call
  returns. \<open>Inl\<close> is a raised exception.
  \<^item> \<open>find_img url\<close>: the page of a slot is fetched and searched for the image element;
    \<open>Inr None\<close> when there is none, \<open>Inr (Some src)\<close> with the \<^verbatim>\<open>src\<close> attribute of the
    element (\<open>None\<close> when the element has no such attribute);
  \<^item> \<open>fetch_image url\<close>: the bytes of the image;
  \<^item> \<open>readtext bytes\<close>: the fragments that the OCR reader recognises;
  \<^item> \<open>to_jpeg bytes\<close>: the image recompressed as JPEG;
  \<^item> \<open>send req\<close>: \<^verbatim>\<open>requests.post\<close>.
\<close>

record world =
  find_img :: "string \<Rightarrow> error + string option option"
  fetch_image :: "string \<Rightarrow> error + string"
  readtext :: "string \<Rightarrow> error + string list"
  to_jpeg :: "string \<Rightarrow> error + string"
  send :: "request \<Rightarrow> error + unit"

text \<open>\<^verbatim>\<open>d[k]\<close> on a dictionary of strings.\<close>

definition py_item :: "(string \<times> 'a) list \<Rightarrow> string \<Rightarrow> error + 'a" where
  "py_item d k = (case map_of d k of None \<Rightarrow> Inl KeyError | Some v \<Rightarrow> Inr v)"

text \<open>
  Sending requests one after the other until one raises: the requests that were sent
  (the one that raised included) and the exception, if any.
\<close>

fun send_all :: "world \<Rightarrow> request list \<Rightarrow> request list \<times> error option" where
  "send_all w [] = ([], None)"
| "send_all w (r # rs) =
     (case send w r of
        Inl e \<Rightarrow> ([r], Some e)
      | Inr _ \<Rightarrow> (let (sent, res) = send_all w rs in (r # sent, res)))"

text \<open>The three digit posts of \<^verbatim>\<open>post_data\<close>, in the order of the loop over the endpoints.\<close>

definition digit_requests :: "string \<Rightarrow> string \<Rightarrow> string list \<Rightarrow> request list" where
  "digit_requests today slot vals =
     map (\<lambda>(ep, val). PostJson (API_DEAR @ ep @ ''/'') (digit_payload today slot val))
       (zip [''last-digit'', ''last-two-digit'', ''last-three-digit''] vals)"

text \<open>
  \<^verbatim>\<open>post_data(today, slot, digits, image_bytes)\<close>: the requests sent and the exception that
  ended the call, if any.
\<close>

definition post_data :: "world \<Rightarrow> string \<Rightarrow> string \<Rightarrow> (string \<times> string) list \<Rightarrow> string \<Rightarrow>
    request list \<times> error option" where
  "post_data w today slot digits image_bytes =
     (case py_item digits ''l1'' of
        Inl e \<Rightarrow> ([], Some e)
      | Inr v1 \<Rightarrow>
     (case py_item digits ''l2'' of
        Inl e \<Rightarrow> ([], Some e)
      | Inr v2 \<Rightarrow>
     (case py_item digits ''l3'' of
        Inl e \<Rightarrow> ([], Some e)
      | Inr v3 \<Rightarrow>
          (case send_all w (digit_requests today slot [v1, v2, v3]) of
             (sent, Some e) \<Rightarrow> (sent, Some e)
           | (sent, None) \<Rightarrow>
               (case to_jpeg w image_bytes of
                  Inl e \<Rightarrow> (sent, Some e)
                | Inr jpg \<Rightarrow>
                    (let fax = PostFax API_FAX
                                 [(''type'', ''dear''), (''date'', today), (''time'', slot)] jpg
                     in case send w fax of
                          Inl e \<Rightarrow> (sent @ [fax], Some e)
                        | Inr _ \<Rightarrow> (sent @ [fax], None)))))))"

text \<open>
  \<^verbatim>\<open>post_digit(api, today, slot, value)\<close> of singapore\_crawler.py: the request sent, and
  the exception of \<^verbatim>\<open>requests.post\<close> or of \<^verbatim>\<open>raise_for_status\<close> on the response.
\<close>

definition post_digit :: "(request \<Rightarrow> error + http_response) \<Rightarrow> string \<Rightarrow> string \<Rightarrow> string \<Rightarrow> string \<Rightarrow>
    request \<times> error option" where
  "post_digit post api today slot val =
     (let req = PostJson api (digit_payload today slot val) in
      case post req of
        Inl e \<Rightarrow> (req, Some e)
      | Inr r \<Rightarrow> (req, (case raise_for_status r of Inl e \<Rightarrow> Some e | Inr _ \<Rightarrow> None)))"

section \<open>The run of dear\_crawler.py\<close>

definition SLOT_CONFIG :: "(string \<times> string \<times> int) list" where
  "SLOT_CONFIG =
     [(''mor'', ''https://lotterysambad.one/nagaland-state-lottery-result-1-pm/'', 13),
      (''day'', ''https://lotterysambad.one/nagaland-state-lottery-result-6-00-pm/'', 18),
      (''evn'', ''https://lotterysambad.one/nagaland-state-lottery-result-8-00-pm/'', 20)]"

text \<open>
  \<^verbatim>\<open>ist_now.strftime("/%Y/%m/")\<close> and \<^verbatim>\<open>ist_now.strftime("%Y-%m-%d")\<close>, for a year of
  four digits: the month and the day are padded to two digits.
\<close>

definition pad2 :: "nat \<Rightarrow> string" where
  "pad2 n = (if n < 10 then CHR ''0'' # str_nat n else str_nat n)"

definition date_path :: "nat \<Rightarrow> nat \<Rightarrow> string" where
  "date_path year month = ''/'' @ str_nat year @ ''/'' @ pad2 month @ ''/''"

definition today_str :: "nat \<Rightarrow> nat \<Rightarrow> nat \<Rightarrow> string" where
  "today_str year month day = str_nat year @ ''-'' @ pad2 month @ ''-'' @ pad2 day"

text \<open>How the body of the loop over the needed slots ends for one slot.\<close>

datatype outcome =
    NoImage
  | SkippedOld
  | Uploaded
  | Failed error

text \<open>
  The body of the loop of \<^verbatim>\<open>main\<close> for one slot: the requests it sent and how it ended.
  Every exception raised in the body is caught by \<^verbatim>\<open>except Exception\<close> (\<open>Failed\<close>); the
  two \<^verbatim>\<open>continue\<close> statements are \<open>NoImage\<close> and \<open>SkippedOld\<close>. The test
  \<^verbatim>\<open>date_path not in img_url\<close> raises a type error when \<^verbatim>\<open>img_url\<close> is \<^verbatim>\<open>None\<close>.
\<close>

definition process_slot :: "world \<Rightarrow> nat \<Rightarrow> nat \<Rightarrow> nat \<Rightarrow> string \<Rightarrow> request list \<times> outcome" where
  "process_slot w year month day slot =
     (case py_item SLOT_CONFIG slot of
        Inl e \<Rightarrow> ([], Failed e)
      | Inr (url, h) \<Rightarrow>
     (case find_img w url of
        Inl e \<Rightarrow> ([], Failed e)
      | Inr None \<Rightarrow> ([], NoImage)
      | Inr (Some None) \<Rightarrow> ([], Failed TypeError)
      | Inr (Some (Some img_url)) \<Rightarrow>
          if \<not> py_in (date_path year month) img_url then ([], SkippedOld)
          else
            (case fetch_image w img_url of
               Inl e \<Rightarrow> ([], Failed e)
             | Inr img_data \<Rightarrow>
            (case readtext w img_data of
               Inl e \<Rightarrow> ([], Failed e)
             | Inr results \<Rightarrow>
            (case extract_digits results of
               Inl e \<Rightarrow> ([], Failed e)
             | Inr digits \<Rightarrow>
                 (case post_data w (today_str year month day) slot digits img_data of
                    (sent, Some e) \<Rightarrow> (sent, Failed e)
                  | (sent, None) \<Rightarrow> (sent, Uploaded)))))))"

text \<open>The loop \<^verbatim>\<open>for slot in needed\<close>: one entry for each slot, in order.\<close>

fun process_slots :: "world \<Rightarrow> nat \<Rightarrow> nat \<Rightarrow> nat \<Rightarrow> string list \<Rightarrow> (string \<times> request list \<times> outcome) list" where
  "process_slots w year month day [] = []"
| "process_slots w year month day (slot # rest) =
     (slot, process_slot w year month day slot) # process_slots w year month day rest"

text \<open>
  \<^verbatim>\<open>main\<close>: the state is fetched (\<open>got\<close> is the outcome of the GET), the needed slots are
  planned from the hour, and each is processed. The planner runs outside every
  \<^verbatim>\<open>try\<close>: its exception ends the run.
\<close>

definition main :: "world \<Rightarrow> nat \<Rightarrow> nat \<Rightarrow> nat \<Rightarrow> int \<Rightarrow> error + http_response \<Rightarrow>
    error + (string \<times> request list \<times> outcome) list" where
  "main w year month day hour got =
     (let db = dear_api_get_today_state (today_str year month day) got in
      case get_needed_slots hour db of
        Inl e \<Rightarrow> Inl e
      | Inr needed \<Rightarrow> Inr (process_slots w year month day needed))"

text \<open>All the requests of a run, in the order they were sent.\<close>

definition requests_of :: "(string \<times> request list \<times> outcome) list \<Rightarrow> request list" where
  "requests_of entries = concat (map (\<lambda>(slot, sent, res). sent) entries)"

section \<open>Lucky-number backfill (lucky\_number\_updater.py)\<close>

definition API_URL :: string where
  "API_URL = ''https://supervillain.pythonanywhere.com/api/luckyNumber/''"

definition TYPES :: "string list" where
  "TYPES = [''singapore'', ''dear'']"

text \<open>
  The random source. \<^verbatim>\<open>random.randint(a, b)\<close> is \<^verbatim>\<open>a + randbelow(b - a + 1)\<close> in the
  library: an integer from \<open>a\<close> to \<open>b\<close>, both included. The generator is a stream of raw
  values; the call that consumes the raw value \<open>u\<close> reduces it into the width of the range.
  (For \<open>b < a\<close> the library raises; the only call of the source has the range 0 to 9.)
\<close>

definition randint :: "int \<Rightarrow> int \<Rightarrow> nat \<Rightarrow> int" where
  "randint a b u = a + int (u mod nat (b - a + 1))"

text \<open>
  \<^verbatim>\<open>[random.randint(0, 9) for _ in range(4)]\<close>: the four draws of \<^verbatim>\<open>generate_lucky_string\<close>,
  in order. \<open>rand k\<close> is the raw value that the \<open>k\<close>-th call of the run consumes, and \<open>i\<close>
  counts the calls made before.
\<close>

definition lucky_draws :: "(nat \<Rightarrow> nat) \<Rightarrow> nat \<Rightarrow> int list" where
  "lucky_draws rand i = map (\<lambda>k. randint 0 9 (rand (i + k))) [0..<4]"

text \<open>\<^verbatim>\<open>generate_lucky_string\<close>: each draw is printed with \<^verbatim>\<open>str\<close> and the four are joined.\<close>

definition generate_lucky_string :: "(nat \<Rightarrow> nat) \<Rightarrow> nat \<Rightarrow> string" where
  "generate_lucky_string rand i = py_join '', '' (map str_int (lucky_draws rand i))"

text \<open>
  The sample space of the four calls, for the statements on the distribution: the contract
  of the library is that \<^verbatim>\<open>randbelow(10)\<close> returns each of the ten values below 10 with the
  same probability, each call independently of the others. So the raw values of one call
  are the ten numbers of \<open>raw_values\<close>, the raw values of four calls in a row are the
  \<open>10 ^ 4\<close> tuples of \<open>four_calls\<close>, all equally likely, and the probability of an event is
  the number of the tuples in it divided by \<open>10 ^ 4\<close>. \<open>stream_of\<close> is a run of the
  generator that delivers the four values of a tuple, in order.
\<close>

definition raw_values :: "nat set" where
  "raw_values = {..<10}"

definition four_calls :: "(nat \<times> nat \<times> nat \<times> nat) set" where
  "four_calls = raw_values \<times> raw_values \<times> raw_values \<times> raw_values"

fun stream_of :: "nat \<times> nat \<times> nat \<times> nat \<Rightarrow> nat \<Rightarrow> nat" where
  "stream_of (u0, u1, u2, u3) k = [u0, u1, u2, u3] ! (k mod 4)"

text \<open>The truth value of a Python object.\<close>

fun py_truthy :: "json \<Rightarrow> bool" where
  "py_truthy JNull = False"
| "py_truthy (JBool b) = b"
| "py_truthy (JNum n) = (n \<noteq> 0)"
| "py_truthy (JStr s) = (s \<noteq> [])"
| "py_truthy (JList xs) = (xs \<noteq> [])"
| "py_truthy (JDict kvs) = (kvs \<noteq> [])"

text \<open>The \<^verbatim>\<open>try\<close> block of \<^verbatim>\<open>check_if_exists\<close>, from the outcome of the GET.\<close>

definition check_try :: "error + http_response \<Rightarrow> error + bool" where
  "check_try got =
     (case got of
        Inl e \<Rightarrow> Inl e
      | Inr r \<Rightarrow>
          if status_code r = 200 then
            (case response_json r of
               Inl e \<Rightarrow> Inl e
             | Inr data \<Rightarrow>
                 (case py_get data ''lucky'' of
                    Inl e \<Rightarrow> Inl e
                  | Inr v \<Rightarrow> Inr (py_truthy v \<and> v \<noteq> JStr [])))
          else Inr False)"

definition check_if_exists :: "error + http_response \<Rightarrow> bool" where
  "check_if_exists got = (case check_try got of Inl e \<Rightarrow> False | Inr b \<Rightarrow> b)"

text \<open>
  The loop of \<^verbatim>\<open>update_numbers\<close> over the categories: \<open>get_lucky t\<close> is the outcome of the
  GET for the category \<open>t\<close>. The result lists the POST requests in the order they are
  sent; what a POST returns or raises is only printed.
\<close>

fun update_loop :: "string \<Rightarrow> (string \<Rightarrow> error + http_response) \<Rightarrow> (nat \<Rightarrow> nat) \<Rightarrow> nat \<Rightarrow>
    string list \<Rightarrow> request list" where
  "update_loop today get_lucky rand i [] = []"
| "update_loop today get_lucky rand i (lotto_type # rest) =
     (if check_if_exists (get_lucky lotto_type) then update_loop today get_lucky rand i rest
      else
        PostJson API_URL
          [(''type'', JStr lotto_type), (''date'', JStr today),
           (''lucky'', JStr (generate_lucky_string rand i)), (''active'', JBool True)]
        # update_loop today get_lucky rand (i + 4) rest)"

definition update_numbers :: "string \<Rightarrow> (string \<Rightarrow> error + http_response) \<Rightarrow> (nat \<Rightarrow> nat) \<Rightarrow> request list" where
  "update_numbers today get_lucky rand = update_loop today get_lucky rand 0 TYPES"

text \<open>The category that a POST of the backfill is for.\<close>

fun request_type :: "request \<Rightarrow> json option" where
  "request_type (PostJson url payload) = map_of payload ''type''"
| "request_type (PostFax url form img) = None"

section \<open>The planners on a day record\<close>

lemma placeholder_dict:
  "get_is_placeholder (JDict kvs) s = Inr (map_of kvs s = Some (JStr ''-''))"
  by (simp add: get_is_placeholder_def split: option.splits)

lemma get_needed_slots_dict:
  "get_needed_slots h (JDict kvs) =
     Inr ((if 13 \<le> h \<and> map_of kvs ''mor'' = Some (JStr ''-'') then [''mor''] else []) @
          (if 18 \<le> h \<and> map_of kvs ''day'' = Some (JStr ''-'') then [''day''] else []) @
          (if 20 \<le> h \<and> map_of kvs ''evn'' = Some (JStr ''-'') then [''evn''] else []))"
  by (simp add: get_needed_slots_def hour_and_placeholder_def placeholder_dict)

lemma slots_to_crawl_dict:
  "slots_to_crawl (JDict kvs) cur =
     Inr ((if map_of kvs ''mor'' = Some (JStr ''-'') then [''mor''] else []) @
          (if cur = ''mor'' then []
           else (if map_of kvs ''day'' = Some (JStr ''-'') then [''day''] else []) @
                (if cur = ''day'' then []
                 else (if map_of kvs ''evn'' = Some (JStr ''-'') then [''evn''] else []))))"
  by (simp add: slots_to_crawl_def TIME_ORDER_def placeholder_dict Let_def)

text \<open>
  Claim C1. Cumulative planner: for every day record \<open>db\<close> (a dictionary) and every
  current IST hour \<open>h\<close>, \<open>get_needed_slots\<close> returns a list that holds a slot exactly
  when \<open>h\<close> is at or past the slot's eligibility hour (13 for mor, 18 for day, 20 for
  evn) and the record's value for the slot equals the placeholder \<^verbatim>\<open>"-"\<close>; the list is
  in the declaration order mor, day, evn, each slot at most once.
\<close>

theorem get_needed_slots_iff:
  "\<exists>needed. get_needed_slots h (JDict kvs) = Inr needed \<and>
     (\<forall>s. s \<in> set needed \<longleftrightarrow>
        (s = ''mor'' \<and> 13 \<le> h \<or> s = ''day'' \<and> 18 \<le> h \<or> s = ''evn'' \<and> 20 \<le> h) \<and>
        map_of kvs s = Some (JStr ''-'')) \<and>
     needed = filter (\<lambda>s. s \<in> set needed) [''mor'', ''day'', ''evn'']"
  unfolding get_needed_slots_dict by auto

theorem get_needed_slots_iff_witness:
  "get_needed_slots 19 (JDict [(''date'', JStr ''2026-02-03''), (''mor'', JStr ''7''),
                               (''day'', JStr ''-''), (''evn'', JStr ''-'')]) = Inr [''day'']"
proof -
  let ?kvs = "[(''date'', JStr ''2026-02-03''), (''mor'', JStr ''7''),
               (''day'', JStr ''-''), (''evn'', JStr ''-'')]"
  from get_needed_slots_iff [of 19 ?kvs]
  obtain needed where n: "get_needed_slots 19 (JDict ?kvs) = Inr needed"
    and mem: "\<forall>s. s \<in> set needed \<longleftrightarrow>
        (s = ''mor'' \<and> (13::int) \<le> 19 \<or> s = ''day'' \<and> (18::int) \<le> 19 \<or> s = ''evn'' \<and> (20::int) \<le> 19) \<and>
        map_of ?kvs s = Some (JStr ''-'')"
    and ord: "needed = filter (\<lambda>s. s \<in> set needed) [''mor'', ''day'', ''evn'']"
    by blast
  from mem have "''mor'' \<notin> set needed" "''day'' \<in> set needed" "''evn'' \<notin> set needed"
    by simp_all
  with ord have "needed = [''day'']" by simp
  with n show ?thesis by simp
qed

text \<open>
  Claim C2. Sequential planner: for every day record \<open>db\<close> (a dictionary) and every
  \<open>current_slot\<close> of the declared sequence mor, day, evn, \<open>slots_to_crawl\<close> returns
  exactly the slots that stand at or before \<open>current_slot\<close> in the sequence and hold
  the placeholder \<^verbatim>\<open>"-"\<close> in the record, in the declared order; a slot that stands
  after \<open>current_slot\<close> is never in the result, whatever the record holds for it.
\<close>

theorem slots_to_crawl_upto_current:
  assumes "cur \<in> set (map snd TIME_ORDER)"
  shows "\<exists>res. slots_to_crawl (JDict kvs) cur = Inr res \<and>
     (\<forall>s. s \<in> set res \<longleftrightarrow>
        s \<in> set (map snd TIME_ORDER) \<and> slot_pos s \<le> slot_pos cur \<and>
        map_of kvs s = Some (JStr ''-'')) \<and>
     (\<forall>s. slot_pos cur < slot_pos s \<longrightarrow> s \<notin> set res) \<and>
     res = filter (\<lambda>s. s \<in> set res) [''mor'', ''day'', ''evn'']"
proof -
  from assms consider "cur = ''mor''" | "cur = ''day''" | "cur = ''evn''"
    by (auto simp: TIME_ORDER_def)
  then show ?thesis
  proof cases
    case 1
    then show ?thesis
      unfolding slots_to_crawl_dict by (auto simp: slot_pos_def TIME_ORDER_def)
  next
    case 2
    then show ?thesis
      unfolding slots_to_crawl_dict by (auto simp: slot_pos_def TIME_ORDER_def)
  next
    case 3
    then show ?thesis
      unfolding slots_to_crawl_dict by (auto simp: slot_pos_def TIME_ORDER_def)
  qed
qed

theorem slots_to_crawl_upto_current_witness:
  "slots_to_crawl (JDict [(''date'', JStr ''2026-02-03''), (''mor'', JStr ''-''),
                          (''day'', JStr ''41''), (''evn'', JStr ''-'')]) ''day'' = Inr [''mor'']"
proof -
  let ?kvs = "[(''date'', JStr ''2026-02-03''), (''mor'', JStr ''-''),
               (''day'', JStr ''41''), (''evn'', JStr ''-'')]"
  have cur: "''day'' \<in> set (map snd TIME_ORDER)"
    by (simp add: TIME_ORDER_def)
  from slots_to_crawl_upto_current [OF cur, of ?kvs]
  obtain res where r: "slots_to_crawl (JDict ?kvs) ''day'' = Inr res"
    and mem: "\<forall>s. s \<in> set res \<longleftrightarrow>
        s \<in> set (map snd TIME_ORDER) \<and> slot_pos s \<le> slot_pos ''day'' \<and>
        map_of ?kvs s = Some (JStr ''-'')"
    and ord: "res = filter (\<lambda>s. s \<in> set res) [''mor'', ''day'', ''evn'']"
    by blast
  from mem have "''mor'' \<in> set res" "''day'' \<notin> set res" "''evn'' \<notin> set res"
    by (simp_all add: TIME_ORDER_def slot_pos_def)
  with ord have "res = [''mor'']" by simp
  with r show ?thesis by simp
qed

text \<open>
  Claim C7, as stated: a slot name that is absent from the fetched record is treated by
  both planners as if the record held the placeholder for it. It fails: at hour 21 the
  cumulative planner needs nothing from a record without slot keys and all three slots
  from the record of placeholders, and so does the sequential planner at the current
  slot evn.
\<close>

theorem absent_slot_counterexample:
  "get_needed_slots 21 (JDict [(''date'', JStr ''2026-02-03'')]) = Inr [] \<and>
   get_needed_slots 21 (JDict [(''date'', JStr ''2026-02-03''), (''mor'', JStr ''-''),
       (''day'', JStr ''-''), (''evn'', JStr ''-'')]) = Inr [''mor'', ''day'', ''evn''] \<and>
   slots_to_crawl (JDict [(''date'', JStr ''2026-02-03'')]) ''evn'' = Inr [] \<and>
   slots_to_crawl (JDict [(''date'', JStr ''2026-02-03''), (''mor'', JStr ''-''),
       (''day'', JStr ''-''), (''evn'', JStr ''-'')]) ''evn'' = Inr [''mor'', ''day'', ''evn'']"
  by (simp add: get_needed_slots_dict slots_to_crawl_dict)

text \<open>
  Claim C7, amended. For every fetched day record (a dictionary), a slot name that is
  absent from the record is never marked as needed, by either planner and at any hour
  or current slot: \<^verbatim>\<open>db.get(slot)\<close> gives \<^verbatim>\<open>None\<close>, which is not the placeholder.
\<close>

theorem absent_slot_not_needed:
  assumes "map_of kvs s = None"
  shows "\<exists>needed res.
     get_needed_slots h (JDict kvs) = Inr needed \<and> s \<notin> set needed \<and>
     slots_to_crawl (JDict kvs) cur = Inr res \<and> s \<notin> set res"
  using assms unfolding get_needed_slots_dict slots_to_crawl_dict by auto

theorem absent_slot_not_needed_witness:
  "\<exists>needed res.
     get_needed_slots 21 (JDict [(''date'', JStr ''2026-02-03''), (''day'', JStr ''-'')]) = Inr needed \<and>
     ''mor'' \<notin> set needed \<and>
     slots_to_crawl (JDict [(''date'', JStr ''2026-02-03''), (''day'', JStr ''-'')]) ''evn'' = Inr res \<and>
     ''mor'' \<notin> set res"
proof -
  have absent: "map_of [(''date'', JStr ''2026-02-03''), (''day'', JStr ''-'')] ''mor'' = None"
    by simp
  show ?thesis
    by (rule absent_slot_not_needed [OF absent])
qed

section \<open>The state fetcher fails open\<close>

lemma py_get_date_dict:
  "is_dict e \<Longrightarrow> py_get e ''date'' = Inr v \<Longrightarrow> (v = JStr today) = has_date today e"
  by (cases e) (auto split: option.splits)

lemma find_today_skip:
  "\<forall>e\<in>set pre. is_dict e \<and> \<not> has_date today e \<Longrightarrow>
   find_today today (pre @ rest) = find_today today rest"
proof (induction pre)
  case Nil
  then show ?case by simp
next
  case (Cons a pre)
  then obtain kvs where a: "a = JDict kvs" by (cases a) auto
  with Cons show ?case by (auto split: option.splits)
qed

lemma find_today_hit:
  "has_date today entry \<Longrightarrow> find_today today (entry # post) = Inr (Some entry)"
  by (cases entry) auto

lemma find_today_bad:
  "\<not> is_dict bad \<Longrightarrow> find_today today (bad # post) = Inl AttributeError"
  by (cases bad) auto

lemma dear_state_ok:
  "\<not> (400 \<le> st \<and> st < 600) \<Longrightarrow>
   dear_api_get_today_state today (Inr (Response st (Some data))) =
     (case pick_record today data of Inl e \<Rightarrow> fresh_record today | Inr v \<Rightarrow> v)"
  by (auto simp: dear_api_get_today_state_def dear_state_try_def raise_for_status_def
      response_json_def)

lemma sg_state_eq_dear:
  "sg_api_get_today_state today got = dear_api_get_today_state today got"
  by (auto simp: sg_api_get_today_state_def sg_state_try_def dear_api_get_today_state_def
      dear_state_try_def raise_for_status_def split: sum.splits)

lemma api_get_today_state_cases:
  "dear_api_get_today_state today (Inl err) = fresh_record today \<and>
   (400 \<le> st \<and> st < 600 \<longrightarrow>
      dear_api_get_today_state today (Inr (Response st body)) = fresh_record today) \<and>
   dear_api_get_today_state today (Inr (Response st None)) = fresh_record today \<and>
   (\<not> (400 \<le> st \<and> st < 600) \<longrightarrow>
      ((\<forall>e\<in>set pre. is_dict e \<and> \<not> has_date today e) \<and> has_date today entry \<longrightarrow>
         dear_api_get_today_state today (Inr (Response st (Some (JList (pre @ entry # post))))) = entry) \<and>
      ((\<forall>e\<in>set pre. is_dict e \<and> \<not> has_date today e) \<longrightarrow>
         dear_api_get_today_state today (Inr (Response st (Some (JList pre)))) = fresh_record today) \<and>
      ((\<forall>e\<in>set pre. is_dict e \<and> \<not> has_date today e) \<and> \<not> is_dict bad \<longrightarrow>
         dear_api_get_today_state today (Inr (Response st (Some (JList (pre @ bad # post))))) =
           fresh_record today) \<and>
      ((\<forall>es. data \<noteq> JList es) \<longrightarrow>
         dear_api_get_today_state today (Inr (Response st (Some data))) = data)) \<and>
   sg_api_get_today_state today got = dear_api_get_today_state today got"
proof -
  have c1: "dear_api_get_today_state today (Inl err) = fresh_record today"
    by (simp add: dear_api_get_today_state_def dear_state_try_def)
  have c2: "dear_api_get_today_state today (Inr (Response st body)) = fresh_record today"
    if "400 \<le> st \<and> st < 600"
    using that by (simp add: dear_api_get_today_state_def dear_state_try_def raise_for_status_def)
  have c3: "dear_api_get_today_state today (Inr (Response st None)) = fresh_record today"
    by (simp add: dear_api_get_today_state_def dear_state_try_def raise_for_status_def
        response_json_def)
  have c4: "dear_api_get_today_state today (Inr (Response st (Some (JList (pre @ entry # post))))) = entry"
    if "\<not> (400 \<le> st \<and> st < 600)" "\<forall>e\<in>set pre. is_dict e \<and> \<not> has_date today e"
      "has_date today entry"
    using that
    by (simp add: dear_state_ok pick_record_def find_today_skip find_today_hit
        del: find_today.simps(2))
  have c5: "dear_api_get_today_state today (Inr (Response st (Some (JList pre)))) = fresh_record today"
    if "\<not> (400 \<le> st \<and> st < 600)" "\<forall>e\<in>set pre. is_dict e \<and> \<not> has_date today e"
    using that find_today_skip [of pre today "[]"]
    by (simp add: dear_state_ok pick_record_def)
  have c6: "dear_api_get_today_state today (Inr (Response st (Some (JList (pre @ bad # post))))) =
      fresh_record today"
    if "\<not> (400 \<le> st \<and> st < 600)" "\<forall>e\<in>set pre. is_dict e \<and> \<not> has_date today e"
      "\<not> is_dict bad"
    using that
    by (simp add: dear_state_ok pick_record_def find_today_skip find_today_bad
        del: find_today.simps(2))
  have c7: "dear_api_get_today_state today (Inr (Response st (Some data))) = data"
    if "\<not> (400 \<le> st \<and> st < 600)" "\<forall>es. data \<noteq> JList es"
    using that by (cases data) (simp_all add: dear_state_ok pick_record_def)
  from c1 c2 c3 c4 c5 c6 c7 sg_state_eq_dear show ?thesis
    by blast
qed

text \<open>
  Claim C5. State fetcher, fail open: for every date string \<open>today\<close>,
  \<^item> when the GET raises, when the status is one that \<^verbatim>\<open>raise_for_status\<close> rejects (400 to
    599), or when the body is not JSON, the result is the synthetic record
    \<^verbatim>\<open>{"date": today, "mor": "-", "day": "-", "evn": "-"}\<close>: the date and the placeholder for
    each of the three slots, and no other key;
  \<^item> when the response is a list, the result is its first entry whose date equals
    \<open>today\<close> (the entries before it being dictionaries of other dates);
  \<^item> when the response is a list of dictionaries none of which has the date \<open>today\<close>, the
    result is the synthetic record, and so it is when an entry that is no dictionary comes
    before any entry of \<open>today\<close> (a malformed response: reading its date raises);
  \<^item> a response that is no list is returned unchanged;
  and the fetcher of singapore\_crawler.py returns what the one of dear\_crawler.py returns.
\<close>

theorem api_get_today_state_fail_open:
  "dear_api_get_today_state today (Inl err) =
        JDict [(''date'', JStr today), (''mor'', JStr ''-''), (''day'', JStr ''-''), (''evn'', JStr ''-'')] \<and>
   (400 \<le> st \<and> st < 600 \<longrightarrow>
      dear_api_get_today_state today (Inr (Response st body)) =
        JDict [(''date'', JStr today), (''mor'', JStr ''-''), (''day'', JStr ''-''), (''evn'', JStr ''-'')]) \<and>
   dear_api_get_today_state today (Inr (Response st None)) =
        JDict [(''date'', JStr today), (''mor'', JStr ''-''), (''day'', JStr ''-''), (''evn'', JStr ''-'')] \<and>
   (\<not> (400 \<le> st \<and> st < 600) \<longrightarrow>
      ((\<forall>e\<in>set pre. is_dict e \<and> \<not> has_date today e) \<and> has_date today entry \<longrightarrow>
         dear_api_get_today_state today (Inr (Response st (Some (JList (pre @ entry # post))))) = entry) \<and>
      ((\<forall>e\<in>set pre. is_dict e \<and> \<not> has_date today e) \<longrightarrow>
         dear_api_get_today_state today (Inr (Response st (Some (JList pre)))) =
        JDict [(''date'', JStr today), (''mor'', JStr ''-''), (''day'', JStr ''-''), (''evn'', JStr ''-'')]) \<and>
      ((\<forall>e\<in>set pre. is_dict e \<and> \<not> has_date today e) \<and> \<not> is_dict bad \<longrightarrow>
         dear_api_get_today_state today (Inr (Response st (Some (JList (pre @ bad # post))))) =
           JDict [(''date'', JStr today), (''mor'', JStr ''-''), (''day'', JStr ''-''), (''evn'', JStr ''-'')]) \<and>
      ((\<forall>es. data \<noteq> JList es) \<longrightarrow>
         dear_api_get_today_state today (Inr (Response st (Some data))) = data)) \<and>
   sg_api_get_today_state today got = dear_api_get_today_state today got"
  by (rule api_get_today_state_cases [unfolded fresh_record_def])

theorem api_get_today_state_fail_open_witness:
  "dear_api_get_today_state ''2026-02-03''
     (Inr (Response 503 (Some (JDict [(''date'', JStr ''2026-02-03''), (''mor'', JStr ''7'')])))) =
     JDict [(''date'', JStr ''2026-02-03''), (''mor'', JStr ''-''), (''day'', JStr ''-''), (''evn'', JStr ''-'')] \<and>
   dear_api_get_today_state ''2026-02-03''
     (Inr (Response 200 (Some (JList
        ([JDict [(''date'', JStr ''2026-02-02''), (''mor'', JStr ''1'')]] @
         JDict [(''date'', JStr ''2026-02-03''), (''mor'', JStr ''7'')] #
         [JDict [(''date'', JStr ''2026-02-03''), (''mor'', JStr ''9'')]]))))) =
     JDict [(''date'', JStr ''2026-02-03''), (''mor'', JStr ''7'')] \<and>
   dear_api_get_today_state ''2026-02-03''
     (Inr (Response 200 (Some (JList
        [JDict [(''date'', JStr ''2026-02-02''), (''mor'', JStr ''1'')]])))) =
     JDict [(''date'', JStr ''2026-02-03''), (''mor'', JStr ''-''), (''day'', JStr ''-''), (''evn'', JStr ''-'')] \<and>
   dear_api_get_today_state ''2026-02-03''
     (Inr (Response 200 (Some (JList
        ([JDict [(''date'', JStr ''2026-02-02''), (''mor'', JStr ''1'')]] @
         JNum 5 # [JDict [(''date'', JStr ''2026-02-03''), (''mor'', JStr ''7'')]]))))) =
     JDict [(''date'', JStr ''2026-02-03''), (''mor'', JStr ''-''), (''day'', JStr ''-''), (''evn'', JStr ''-'')] \<and>
   dear_api_get_today_state ''2026-02-03''
     (Inr (Response 200 (Some (JDict [(''date'', JStr ''2026-02-01''), (''mor'', JStr ''4'')])))) =
     JDict [(''date'', JStr ''2026-02-01''), (''mor'', JStr ''4'')]"
proof -
  let ?other = "JDict [(''date'', JStr ''2026-02-02''), (''mor'', JStr ''1'')]"
  let ?mine = "JDict [(''date'', JStr ''2026-02-03''), (''mor'', JStr ''7'')]"
  let ?late = "JDict [(''date'', JStr ''2026-02-03''), (''mor'', JStr ''9'')]"
  let ?single = "JDict [(''date'', JStr ''2026-02-01''), (''mor'', JStr ''4'')]"
  have pre: "\<forall>e\<in>set [?other]. is_dict e \<and> \<not> has_date ''2026-02-03'' e"
    by simp
  have hit: "has_date ''2026-02-03'' ?mine"
    by simp
  have bad: "\<not> is_dict (JNum 5)"
    by simp
  have single: "\<forall>es. ?single \<noteq> JList es"
    by simp
  have ok: "\<not> (400 \<le> (200::nat) \<and> (200::nat) < 600)"
    by simp
  have rejected: "400 \<le> (503::nat) \<and> (503::nat) < 600"
    by simp
  from rejected
    api_get_today_state_fail_open [where today = "''2026-02-03''" and st = 503 and body = "Some ?mine"]
  have w1: "dear_api_get_today_state ''2026-02-03'' (Inr (Response 503 (Some ?mine))) =
      JDict [(''date'', JStr ''2026-02-03''), (''mor'', JStr ''-''), (''day'', JStr ''-''), (''evn'', JStr ''-'')]"
    by blast
  note inst = api_get_today_state_fail_open [where today = "''2026-02-03''" and st = 200
      and pre = "[?other]" and entry = ?mine and post = "[?late]" and bad = "JNum 5"
      and data = ?single]
  from inst ok pre hit
  have w2: "dear_api_get_today_state ''2026-02-03''
      (Inr (Response 200 (Some (JList ([?other] @ ?mine # [?late]))))) = ?mine"
    by blast
  from inst ok pre
  have w3: "dear_api_get_today_state ''2026-02-03''
      (Inr (Response 200 (Some (JList [?other])))) = JDict [(''date'', JStr ''2026-02-03''), (''mor'', JStr ''-''), (''day'', JStr ''-''), (''evn'', JStr ''-'')]"
    by blast
  from api_get_today_state_fail_open [where today = "''2026-02-03''" and st = 200
      and pre = "[?other]" and post = "[?mine]" and bad = "JNum 5"] ok pre bad
  have w4: "dear_api_get_today_state ''2026-02-03''
      (Inr (Response 200 (Some (JList ([?other] @ JNum 5 # [?mine]))))) = JDict [(''date'', JStr ''2026-02-03''), (''mor'', JStr ''-''), (''day'', JStr ''-''), (''evn'', JStr ''-'')]"
    by blast
  from inst ok single
  have w5: "dear_api_get_today_state ''2026-02-03'' (Inr (Response 200 (Some ?single))) = ?single"
    by blast
  from w1 w2 w3 w4 w5 show ?thesis
    by blast
qed

section \<open>The extractors\<close>

lemma digits5_at_0:
  "digits5_at (c # cs) 0 = (5 \<le> length (c # cs) \<and> list_all is_digit (take 5 (c # cs)))"
  by (simp add: digits5_at_def)

lemma digits5_at_Suc: "digits5_at (c # cs) (Suc k) = digits5_at cs k"
  by (simp add: digits5_at_def add.commute)

lemma re_search_d5_None: "(\<forall>i. \<not> digits5_at t i) \<Longrightarrow> re_search_d5 t = None"
proof (induction t)
  case Nil
  then show ?case by simp
next
  case (Cons c cs)
  from Cons.prems have "\<not> digits5_at (c # cs) 0" by blast
  moreover from Cons.prems have "\<forall>i. \<not> digits5_at cs i"
    using digits5_at_Suc by blast
  ultimately show ?case using Cons.IH by (simp add: digits5_at_0 del: take_Suc_Cons)
qed

lemma re_search_d5_Some:
  "digits5_at t i \<Longrightarrow> (\<forall>j<i. \<not> digits5_at t j) \<Longrightarrow> re_search_d5 t = Some (take 5 (drop i t))"
proof (induction t arbitrary: i)
  case Nil
  then show ?case by (simp add: digits5_at_def)
next
  case (Cons c cs)
  show ?case
  proof (cases i)
    case 0
    with Cons.prems(1) show ?thesis by (simp add: digits5_at_0)
  next
    case (Suc k)
    with Cons.prems have k: "digits5_at cs k" and first: "\<not> digits5_at (c # cs) 0"
      and before: "\<forall>j<k. \<not> digits5_at cs j"
      using digits5_at_Suc by auto
    from first have nf: "\<not> (5 \<le> length (c # cs) \<and> list_all is_digit (take 5 (c # cs)))"
      unfolding digits5_at_0 .
    have "re_search_d5 (c # cs) = re_search_d5 cs"
      by (subst re_search_d5.simps) (simp only: nf if_False)
    with Cons.IH [OF k before] Suc show ?thesis
      by simp
  qed
qed

lemma re_search_d5_length:
  "re_search_d5 t = Some num \<Longrightarrow> length num = 5 \<and> list_all is_digit num"
  by (induction t) (auto split: if_splits)

lemma lazy_digits4_length:
  "lazy_digits4 t = Some num \<Longrightarrow> 4 \<le> length num \<and> list_all is_digit num"
proof (induction t)
  case Nil
  then show ?case by simp
next
  case (Cons c cs)
  then show ?case
    by (auto split: if_splits simp: list_all_iff dest: set_takeWhileD)
qed

lemma re_search_prize_length:
  "re_search_prize t = Some num \<Longrightarrow> 4 \<le> length num \<and> list_all is_digit num"
proof (induction t)
  case Nil
  then show ?case by simp
next
  case (Cons c cs)
  then show ?case
    by (auto simp: match_prize_here_def split: option.splits dest: lazy_digits4_length)
qed

lemma slice_from_end_suffix:
  "k \<le> length s \<Longrightarrow> suffix (py_slice_from_end k s) s \<and> length (py_slice_from_end k s) = k"
  by (simp add: py_slice_from_end_def suffix_drop)

lemma last_char_suffix:
  "s \<noteq> [] \<Longrightarrow> py_last_char s = Inr [last s] \<and> suffix [last s] s"
  by (auto simp: py_last_char_def suffix_def intro: exI [of _ "butlast s"])

lemma extract_digits_found:
  "re_search_d5 (py_join '' '' results) = Some num \<Longrightarrow>
   extract_digits results =
     Inr [(''l1'', [last num]), (''l2'', py_slice_from_end 2 num), (''l3'', py_slice_from_end 3 num)]"
  using re_search_d5_length [of "py_join '' '' results" num]
  by (auto simp: extract_digits_def Let_def py_last_char_def)

lemma extract_pdf_found:
  "re_search_prize (py_join [] pages) = Some num \<Longrightarrow>
   extract_digits_from_pdf_bytes pages =
     Inr [(''last_1'', [last num]), (''last_2'', py_slice_from_end 2 num),
          (''last_3'', py_slice_from_end 3 num)]"
  using re_search_prize_length [of "py_join [] pages" num]
  by (auto simp: extract_digits_from_pdf_bytes_def Let_def py_last_char_def)

text \<open>
  Claim C3. Suffix derivation: for every number string \<open>num\<close> of length at least 3, the
  three derived values \<^verbatim>\<open>num[-1]\<close>, \<^verbatim>\<open>num[-2:]\<close> and \<^verbatim>\<open>num[-3:]\<close> are the suffixes of \<open>num\<close>
  of lengths 1, 2 and 3, nothing added. The number that the image extractor locates has
  5 digits and the one of the PDF extractor at least 4, and each extractor returns these
  three values for the number it located.
\<close>

theorem suffix_derivation:
  "(3 \<le> length num \<longrightarrow>
      py_last_char num = Inr [last num] \<and> suffix [last num] num \<and>
      suffix (py_slice_from_end 2 num) num \<and> length (py_slice_from_end 2 num) = 2 \<and>
      suffix (py_slice_from_end 3 num) num \<and> length (py_slice_from_end 3 num) = 3) \<and>
   (re_search_d5 (py_join '' '' results) = Some num \<longrightarrow>
      length num = 5 \<and>
      extract_digits results =
        Inr [(''l1'', [last num]), (''l2'', py_slice_from_end 2 num),
             (''l3'', py_slice_from_end 3 num)]) \<and>
   (re_search_prize (py_join [] pages) = Some num \<longrightarrow>
      4 \<le> length num \<and>
      extract_digits_from_pdf_bytes pages =
        Inr [(''last_1'', [last num]), (''last_2'', py_slice_from_end 2 num),
             (''last_3'', py_slice_from_end 3 num)])"
proof -
  have a: "py_last_char num = Inr [last num] \<and> suffix [last num] num \<and>
      suffix (py_slice_from_end 2 num) num \<and> length (py_slice_from_end 2 num) = 2 \<and>
      suffix (py_slice_from_end 3 num) num \<and> length (py_slice_from_end 3 num) = 3"
    if "3 \<le> length num"
  proof -
    from that have "num \<noteq> []" "2 \<le> length num" by auto
    with that last_char_suffix [of num] slice_from_end_suffix [of 2 num]
      slice_from_end_suffix [of 3 num]
    show ?thesis by blast
  qed
  have b: "length num = 5 \<and> extract_digits results =
        Inr [(''l1'', [last num]), (''l2'', py_slice_from_end 2 num),
             (''l3'', py_slice_from_end 3 num)]"
    if "re_search_d5 (py_join '' '' results) = Some num"
    using that re_search_d5_length extract_digits_found by blast
  have c: "4 \<le> length num \<and> extract_digits_from_pdf_bytes pages =
        Inr [(''last_1'', [last num]), (''last_2'', py_slice_from_end 2 num),
             (''last_3'', py_slice_from_end 3 num)]"
    if "re_search_prize (py_join [] pages) = Some num"
    using that re_search_prize_length extract_pdf_found by blast
  from a b c show ?thesis by blast
qed

theorem suffix_derivation_witness:
  "py_last_char ''82497'' = Inr ''7'' \<and> py_slice_from_end 2 ''82497'' = ''97'' \<and>
   py_slice_from_end 3 ''82497'' = ''497'' \<and>
   extract_digits [''1st Prize'', ''82A 82497''] = Inr [(''l1'', ''7''), (''l2'', ''97''), (''l3'', ''497'')] \<and>
   extract_digits_from_pdf_bytes [''1st Prize 8249'', ''7 2nd Prize 1234''] =
     Inr [(''last_1'', ''7''), (''last_2'', ''97''), (''last_3'', ''497'')]"
proof -
  have len: "3 \<le> length ''82497''"
    by simp
  have img: "re_search_d5 (py_join '' '' [''1st Prize'', ''82A 82497'']) = Some ''82497''"
    by (simp add: is_digit_def)
  have pdf: "re_search_prize (py_join [] [''1st Prize 8249'', ''7 2nd Prize 1234'']) = Some ''82497''"
    by code_simp
  from suffix_derivation [of "''82497''" "[''1st Prize'', ''82A 82497'']"
      "[''1st Prize 8249'', ''7 2nd Prize 1234'']"] len img pdf
  have "py_last_char ''82497'' = Inr [last ''82497'']"
    and "extract_digits [''1st Prize'', ''82A 82497''] =
        Inr [(''l1'', [last ''82497'']), (''l2'', py_slice_from_end 2 ''82497''),
             (''l3'', py_slice_from_end 3 ''82497'')]"
    and "extract_digits_from_pdf_bytes [''1st Prize 8249'', ''7 2nd Prize 1234''] =
        Inr [(''last_1'', [last ''82497'']), (''last_2'', py_slice_from_end 2 ''82497''),
             (''last_3'', py_slice_from_end 3 ''82497'')]"
    by blast+
  then show ?thesis
    by (simp add: py_slice_from_end_def)
qed

text \<open>
  Claim C6. Image extraction: for every list of OCR fragments, the image extractor joins
  the fragments with single spaces and locates the first run of exactly 5 consecutive
  digits of the joined text, that is the leftmost position at which 5 digits stand in a
  row (the pattern takes exactly five digits, where the one of the PDF extractor takes
  four or more); it returns the suffixes of lengths 1, 2 and 3 of these five digits. When
  no position of the joined text has 5 digits in a row, it raises the extraction error
  whose message ends with the first 50 characters of the joined text.
\<close>

theorem extract_digits_leftmost_five:
  "((\<forall>i. \<not> digits5_at (py_join '' '' results) i) \<longrightarrow>
      extract_digits results =
        Inl (ValueError (''1st Prize not detected. OCR saw: '' @ take 50 (py_join '' '' results)))) \<and>
   (digits5_at (py_join '' '' results) i \<and> (\<forall>j<i. \<not> digits5_at (py_join '' '' results) j) \<longrightarrow>
      (\<exists>num. num = take 5 (drop i (py_join '' '' results)) \<and> length num = 5 \<and>
         list_all is_digit num \<and>
         extract_digits results =
           Inr [(''l1'', [last num]), (''l2'', py_slice_from_end 2 num),
                (''l3'', py_slice_from_end 3 num)] \<and>
         suffix [last num] num \<and>
         suffix (py_slice_from_end 2 num) num \<and> length (py_slice_from_end 2 num) = 2 \<and>
         suffix (py_slice_from_end 3 num) num \<and> length (py_slice_from_end 3 num) = 3))"
proof -
  let ?t = "py_join '' '' results"
  have none: "extract_digits results =
      Inl (ValueError (''1st Prize not detected. OCR saw: '' @ take 50 ?t))"
    if "\<forall>i. \<not> digits5_at ?t i"
    using re_search_d5_None [OF that]
    by (simp add: extract_digits_def Let_def py_slice_to_def)
  have some: "\<exists>num. num = take 5 (drop i ?t) \<and> length num = 5 \<and> list_all is_digit num \<and>
         extract_digits results =
           Inr [(''l1'', [last num]), (''l2'', py_slice_from_end 2 num),
                (''l3'', py_slice_from_end 3 num)] \<and>
         suffix [last num] num \<and>
         suffix (py_slice_from_end 2 num) num \<and> length (py_slice_from_end 2 num) = 2 \<and>
         suffix (py_slice_from_end 3 num) num \<and> length (py_slice_from_end 3 num) = 3"
    if at: "digits5_at ?t i" and first: "\<forall>j<i. \<not> digits5_at ?t j"
  proof -
    let ?num = "take 5 (drop i ?t)"
    have found: "re_search_d5 ?t = Some ?num"
      by (rule re_search_d5_Some [OF at first])
    from re_search_d5_length [OF found] have len: "length ?num = 5" and dig: "list_all is_digit ?num"
      by blast+
    from len have ne: "?num \<noteq> []" and l2: "2 \<le> length ?num" and l3: "3 \<le> length ?num"
      by auto
    from extract_digits_found [OF found] len dig last_char_suffix [OF ne]
      slice_from_end_suffix [OF l2] slice_from_end_suffix [OF l3]
    show ?thesis by blast
  qed
  from none some show ?thesis by blast
qed

theorem extract_digits_leftmost_five_witness:
  "extract_digits [''1st'', ''82497'', ''8249''] =
     Inr [(''l1'', ''7''), (''l2'', ''97''), (''l3'', ''497'')] \<and>
   extract_digits [''Nagaland State Lottery'', ''1st Prize 1 Crore'', ''sold by the main stockist'', ''8249''] =
     Inl (ValueError ''1st Prize not detected. OCR saw: Nagaland State Lottery 1st Prize 1 Crore sold by t'')"
proof -
  let ?a = "[''1st'', ''82497'', ''8249'']"
  let ?b = "[''Nagaland State Lottery'', ''1st Prize 1 Crore'', ''sold by the main stockist'', ''8249'']"
  have at: "digits5_at (py_join '' '' ?a) 4"
    by code_simp
  have first: "\<forall>j<4. \<not> digits5_at (py_join '' '' ?a) j"
  proof (intro allI impI)
    fix j :: nat
    assume "j < 4"
    then consider "j = 0" | "j = 1" | "j = 2" | "j = 3"
      by linarith
    then show "\<not> digits5_at (py_join '' '' ?a) j"
      by cases (simp_all add: digits5_at_def is_digit_def)
  qed
  have nowhere: "\<forall>i. \<not> digits5_at (py_join '' '' ?b) i"
  proof
    fix i
    have "re_search_d5 (py_join '' '' ?b) = None"
      by code_simp
    then show "\<not> digits5_at (py_join '' '' ?b) i"
    proof (induction i rule: less_induct)
      case (less i)
      show ?case
      proof
        assume here: "digits5_at (py_join '' '' ?b) i"
        from less.IH less.prems have "\<forall>j<i. \<not> digits5_at (py_join '' '' ?b) j"
          by blast
        from re_search_d5_Some [OF here this] less.prems show False
          by simp
      qed
    qed
  qed
  from extract_digits_leftmost_five [of ?a 4] at first
  have a: "extract_digits ?a =
      Inr [(''l1'', [last (take 5 (drop 4 (py_join '' '' ?a)))]),
           (''l2'', py_slice_from_end 2 (take 5 (drop 4 (py_join '' '' ?a)))),
           (''l3'', py_slice_from_end 3 (take 5 (drop 4 (py_join '' '' ?a))))]"
    by blast
  from extract_digits_leftmost_five [of ?b] nowhere
  have b: "extract_digits ?b =
      Inl (ValueError (''1st Prize not detected. OCR saw: '' @ take 50 (py_join '' '' ?b)))"
    by blast
  from a b show ?thesis
    by (simp add: py_slice_from_end_def)
qed

section \<open>The payload of the publishers\<close>

lemma send_all_subset: "set (fst (send_all w rs)) \<subseteq> set rs"
  by (induction rs) (auto split: sum.splits prod.splits)

lemma digit_requests_three:
  "digit_requests today slot [v1, v2, v3] =
     [PostJson (API_DEAR @ ''last-digit/'') (digit_payload today slot v1),
      PostJson (API_DEAR @ ''last-two-digit/'') (digit_payload today slot v2),
      PostJson (API_DEAR @ ''last-three-digit/'') (digit_payload today slot v3)]"
  by (simp add: digit_requests_def)

lemma post_data_sent:
  "fst (post_data w today slot digits img) = [] \<or>
   (\<exists>v1 v2 v3.
      fst (post_data w today slot digits img) = fst (send_all w (digit_requests today slot [v1, v2, v3])) \<or>
      (\<exists>jpg. fst (post_data w today slot digits img) =
         fst (send_all w (digit_requests today slot [v1, v2, v3])) @
         [PostFax API_FAX [(''type'', ''dear''), (''date'', today), (''time'', slot)] jpg]))"
proof (cases "py_item digits ''l1''")
  case (Inl e)
  then show ?thesis by (simp add: post_data_def)
next
  case v1: (Inr v1)
  show ?thesis
  proof (cases "py_item digits ''l2''")
    case (Inl e)
    with v1 show ?thesis by (simp add: post_data_def)
  next
    case v2: (Inr v2)
    show ?thesis
    proof (cases "py_item digits ''l3''")
      case (Inl e)
      with v1 v2 show ?thesis by (simp add: post_data_def)
    next
      case v3: (Inr v3)
      obtain sent res where s: "send_all w (digit_requests today slot [v1, v2, v3]) = (sent, res)"
        by (cases "send_all w (digit_requests today slot [v1, v2, v3])")
      have "fst (post_data w today slot digits img) = sent \<or>
        (\<exists>jpg. fst (post_data w today slot digits img) =
           sent @ [PostFax API_FAX [(''type'', ''dear''), (''date'', today), (''time'', slot)] jpg])"
        using v1 v2 v3 s
        by (simp add: post_data_def Let_def split: option.splits sum.splits del: send_all.simps)
      with s show ?thesis
        by (metis fst_conv)
    qed
  qed
qed


lemma post_data_requests:
  assumes "req \<in> set (fst (post_data w today slot digits img))"
  shows "(\<exists>url val. req = PostJson url (digit_payload today slot val)) \<or>
   (\<exists>jpg. req = PostFax API_FAX [(''type'', ''dear''), (''date'', today), (''time'', slot)] jpg)"
proof -
  have digit: "\<exists>url val. r = PostJson url (digit_payload today slot val)"
    if "r \<in> set (fst (send_all w (digit_requests today slot [v1, v2, v3])))" for r v1 v2 v3
  proof -
    from that send_all_subset [of w "digit_requests today slot [v1, v2, v3]"]
    have "r \<in> set (digit_requests today slot [v1, v2, v3])"
      by blast
    then show ?thesis
      unfolding digit_requests_three by auto
  qed
  from post_data_sent [of w today slot digits img] assms digit show ?thesis
    by (elim disjE exE) auto
qed

lemma send_all_prefix: "prefix (fst (send_all w rs)) rs"
  by (induction rs) (auto split: sum.splits prod.splits)

lemma send_all_first: "rs \<noteq> [] \<Longrightarrow> take 1 (fst (send_all w rs)) = take 1 rs"
  by (cases rs) (auto split: sum.splits prod.splits)

lemma send_all_ok: "\<forall>r. send w r = Inr () \<Longrightarrow> send_all w rs = (rs, None)"
  by (induction rs) auto

lemma send_all_done: "snd (send_all w rs) = None \<Longrightarrow> fst (send_all w rs) = rs"
  by (induction rs) (auto split: sum.splits prod.splits)

lemma post_data_present:
  assumes l1: "map_of digits ''l1'' = Some d1" and l2: "map_of digits ''l2'' = Some d2"
    and l3: "map_of digits ''l3'' = Some d3"
  shows "fst (post_data w today slot digits img) = fst (send_all w (digit_requests today slot [d1, d2, d3])) \<or>
     (\<exists>jpg. to_jpeg w img = Inr jpg \<and>
        fst (post_data w today slot digits img) =
          digit_requests today slot [d1, d2, d3] @
          [PostFax API_FAX [(''type'', ''dear''), (''date'', today), (''time'', slot)] jpg])"
proof -
  let ?rs = "digit_requests today slot [d1, d2, d3]"
  obtain sent res where s: "send_all w ?rs = (sent, res)"
    by (cases "send_all w ?rs")
  show ?thesis
  proof (cases res)
    case (Some e)
    with s l1 l2 l3 show ?thesis
      by (simp add: post_data_def py_item_def del: send_all.simps)
  next
    case None
    with s send_all_done [of w ?rs] have all: "sent = ?rs"
      by simp
    show ?thesis
    proof (cases "to_jpeg w img")
      case (Inl e)
      with s None l1 l2 l3 show ?thesis
        by (simp add: post_data_def py_item_def del: send_all.simps)
    next
      case (Inr jpg)
      with s None all l1 l2 l3 show ?thesis
        by (simp add: post_data_def py_item_def Let_def split: sum.splits del: send_all.simps)
    qed
  qed
qed

lemma post_data_all_sent:
  assumes l1: "map_of digits ''l1'' = Some d1" and l2: "map_of digits ''l2'' = Some d2"
    and l3: "map_of digits ''l3'' = Some d3"
    and ok: "\<forall>r. send w r = Inr ()" and jpg: "to_jpeg w img = Inr jpg"
  shows "post_data w today slot digits img =
     (digit_requests today slot [d1, d2, d3] @
      [PostFax API_FAX [(''type'', ''dear''), (''date'', today), (''time'', slot)] jpg], None)"
  using l1 l2 l3 jpg ok send_all_ok [OF ok, of "digit_requests today slot [d1, d2, d3]"]
  by (simp add: post_data_def py_item_def Let_def del: send_all.simps)

text \<open>
  Claim C4. Publish payload shape: for every date string, every target slot among mor,
  day and evn and every value, the payload that both publishers post to a digit endpoint
  maps the target slot to the value, maps the two other slots to the placeholder \<^verbatim>\<open>"-"\<close>,
  carries the date and has no other key. The three digit posts of \<^verbatim>\<open>post_data\<close> and the
  post of \<^verbatim>\<open>post_digit\<close> carry this payload, and every JSON request that \<^verbatim>\<open>post_data\<close> sends
  is of this shape. What \<^verbatim>\<open>post_data\<close> sends, for the digits \<^verbatim>\<open>l1\<close>, \<^verbatim>\<open>l2\<close> and \<^verbatim>\<open>l3\<close> it is given:
  its first request is the post of \<^verbatim>\<open>l1\<close> to the endpoint of the last digit; the requests it
  sends are, in order, a prefix of the three digit posts (of \<^verbatim>\<open>l1\<close>, \<^verbatim>\<open>l2\<close>, \<^verbatim>\<open>l3\<close>) followed
  by the snapshot post; and when no post raises, it sends exactly these four.
\<close>

theorem digit_payload_shape:
  assumes "slot \<in> {''mor'', ''day'', ''evn''}"
  shows "map_of (digit_payload today slot v) slot = Some (JStr v) \<and>
     (\<forall>s\<in>{''mor'', ''day'', ''evn''}. s \<noteq> slot \<longrightarrow>
        map_of (digit_payload today slot v) s = Some (JStr ''-'')) \<and>
     map_of (digit_payload today slot v) ''date'' = Some (JStr today) \<and>
     map fst (digit_payload today slot v) = [''date'', ''mor'', ''day'', ''evn''] \<and>
     digit_requests today slot [v1, v2, v3] =
       [PostJson (API_DEAR @ ''last-digit/'') (digit_payload today slot v1),
        PostJson (API_DEAR @ ''last-two-digit/'') (digit_payload today slot v2),
        PostJson (API_DEAR @ ''last-three-digit/'') (digit_payload today slot v3)] \<and>
     (\<forall>req\<in>set (fst (post_data w today slot digits img)).
        (\<exists>url val. req = PostJson url (digit_payload today slot val)) \<or>
        (\<exists>jpg. req = PostFax API_FAX [(''type'', ''dear''), (''date'', today), (''time'', slot)] jpg)) \<and>
     fst (post_digit post api today slot v) = PostJson api (digit_payload today slot v) \<and>
     (map_of digits ''l1'' = Some d1 \<and> map_of digits ''l2'' = Some d2 \<and> map_of digits ''l3'' = Some d3 \<longrightarrow>
        take 1 (fst (post_data w today slot digits img)) =
          [PostJson (API_DEAR @ ''last-digit/'') (digit_payload today slot d1)] \<and>
        (prefix (fst (post_data w today slot digits img)) (digit_requests today slot [d1, d2, d3]) \<or>
         (\<exists>jpg. to_jpeg w img = Inr jpg \<and>
            fst (post_data w today slot digits img) =
              digit_requests today slot [d1, d2, d3] @
              [PostFax API_FAX [(''type'', ''dear''), (''date'', today), (''time'', slot)] jpg])) \<and>
        (\<forall>jpg. (\<forall>r. send w r = Inr ()) \<and> to_jpeg w img = Inr jpg \<longrightarrow>
           post_data w today slot digits img =
             ([PostJson (API_DEAR @ ''last-digit/'') (digit_payload today slot d1),
               PostJson (API_DEAR @ ''last-two-digit/'') (digit_payload today slot d2),
               PostJson (API_DEAR @ ''last-three-digit/'') (digit_payload today slot d3),
               PostFax API_FAX [(''type'', ''dear''), (''date'', today), (''time'', slot)] jpg], None)))"
proof -
  from assms consider "slot = ''mor''" | "slot = ''day''" | "slot = ''evn''"
    by auto
  then have payload: "digit_payload today slot v =
      [(''date'', JStr today), (''mor'', if slot = ''mor'' then JStr v else JStr ''-''),
       (''day'', if slot = ''day'' then JStr v else JStr ''-''),
       (''evn'', if slot = ''evn'' then JStr v else JStr ''-'')]"
    by cases (simp_all add: digit_payload_def)
  have c1: "map_of (digit_payload today slot v) slot = Some (JStr v)"
    using assms unfolding payload by auto
  have c2: "\<forall>s\<in>{''mor'', ''day'', ''evn''}. s \<noteq> slot \<longrightarrow>
        map_of (digit_payload today slot v) s = Some (JStr ''-'')"
    unfolding payload by auto
  have c3: "map_of (digit_payload today slot v) ''date'' = Some (JStr today)"
    unfolding payload by simp
  have c4: "map fst (digit_payload today slot v) = [''date'', ''mor'', ''day'', ''evn'']"
    unfolding payload by simp
  have c5: "fst (post_digit post api today slot v) = PostJson api (digit_payload today slot v)"
    by (simp add: post_digit_def Let_def split: sum.splits)
  have c6: "\<forall>req\<in>set (fst (post_data w today slot digits img)).
        (\<exists>url val. req = PostJson url (digit_payload today slot val)) \<or>
        (\<exists>jpg. req = PostFax API_FAX [(''type'', ''dear''), (''date'', today), (''time'', slot)] jpg)"
    using post_data_requests by blast
  have c7: "map_of digits ''l1'' = Some d1 \<and> map_of digits ''l2'' = Some d2 \<and> map_of digits ''l3'' = Some d3 \<longrightarrow>
        take 1 (fst (post_data w today slot digits img)) =
          [PostJson (API_DEAR @ ''last-digit/'') (digit_payload today slot d1)] \<and>
        (prefix (fst (post_data w today slot digits img)) (digit_requests today slot [d1, d2, d3]) \<or>
         (\<exists>jpg. to_jpeg w img = Inr jpg \<and>
            fst (post_data w today slot digits img) =
              digit_requests today slot [d1, d2, d3] @
              [PostFax API_FAX [(''type'', ''dear''), (''date'', today), (''time'', slot)] jpg])) \<and>
        (\<forall>jpg. (\<forall>r. send w r = Inr ()) \<and> to_jpeg w img = Inr jpg \<longrightarrow>
           post_data w today slot digits img =
             ([PostJson (API_DEAR @ ''last-digit/'') (digit_payload today slot d1),
               PostJson (API_DEAR @ ''last-two-digit/'') (digit_payload today slot d2),
               PostJson (API_DEAR @ ''last-three-digit/'') (digit_payload today slot d3),
               PostFax API_FAX [(''type'', ''dear''), (''date'', today), (''time'', slot)] jpg], None))"
  proof (intro impI)
    assume "map_of digits ''l1'' = Some d1 \<and> map_of digits ''l2'' = Some d2 \<and> map_of digits ''l3'' = Some d3"
    then have l1: "map_of digits ''l1'' = Some d1" and l2: "map_of digits ''l2'' = Some d2"
      and l3: "map_of digits ''l3'' = Some d3"
      by simp_all
    let ?rs = "digit_requests today slot [d1, d2, d3]"
    note present = post_data_present [OF l1 l2 l3, of w today slot img]
    have ne: "?rs \<noteq> []"
      by (simp add: digit_requests_three)
    have first: "take 1 (fst (post_data w today slot digits img)) =
          [PostJson (API_DEAR @ ''last-digit/'') (digit_payload today slot d1)]"
      using present
    proof (elim disjE exE conjE)
      assume "fst (post_data w today slot digits img) = fst (send_all w ?rs)"
      with send_all_first [OF ne, of w] show ?thesis
        by (simp add: digit_requests_three)
    next
      fix jpg
      assume "fst (post_data w today slot digits img) =
          ?rs @ [PostFax API_FAX [(''type'', ''dear''), (''date'', today), (''time'', slot)] jpg]"
      then show ?thesis
        by (simp add: digit_requests_three)
    qed
    have order: "prefix (fst (post_data w today slot digits img)) ?rs \<or>
         (\<exists>jpg. to_jpeg w img = Inr jpg \<and>
            fst (post_data w today slot digits img) =
              ?rs @ [PostFax API_FAX [(''type'', ''dear''), (''date'', today), (''time'', slot)] jpg])"
      using present send_all_prefix [of w ?rs] by auto
    have full: "\<forall>jpg. (\<forall>r. send w r = Inr ()) \<and> to_jpeg w img = Inr jpg \<longrightarrow>
           post_data w today slot digits img =
             ([PostJson (API_DEAR @ ''last-digit/'') (digit_payload today slot d1),
               PostJson (API_DEAR @ ''last-two-digit/'') (digit_payload today slot d2),
               PostJson (API_DEAR @ ''last-three-digit/'') (digit_payload today slot d3),
               PostFax API_FAX [(''type'', ''dear''), (''date'', today), (''time'', slot)] jpg], None)"
    proof (intro allI impI)
      fix jpg
      assume "(\<forall>r. send w r = Inr ()) \<and> to_jpeg w img = Inr jpg"
      then have ok: "\<forall>r. send w r = Inr ()" and jpg: "to_jpeg w img = Inr jpg"
        by simp_all
      from post_data_all_sent [OF l1 l2 l3 ok jpg, of today slot]
      show "post_data w today slot digits img =
             ([PostJson (API_DEAR @ ''last-digit/'') (digit_payload today slot d1),
               PostJson (API_DEAR @ ''last-two-digit/'') (digit_payload today slot d2),
               PostJson (API_DEAR @ ''last-three-digit/'') (digit_payload today slot d3),
               PostFax API_FAX [(''type'', ''dear''), (''date'', today), (''time'', slot)] jpg], None)"
        by (simp add: digit_requests_three)
    qed
    from first order full
    show "take 1 (fst (post_data w today slot digits img)) =
          [PostJson (API_DEAR @ ''last-digit/'') (digit_payload today slot d1)] \<and>
        (prefix (fst (post_data w today slot digits img)) ?rs \<or>
         (\<exists>jpg. to_jpeg w img = Inr jpg \<and>
            fst (post_data w today slot digits img) =
              ?rs @ [PostFax API_FAX [(''type'', ''dear''), (''date'', today), (''time'', slot)] jpg])) \<and>
        (\<forall>jpg. (\<forall>r. send w r = Inr ()) \<and> to_jpeg w img = Inr jpg \<longrightarrow>
           post_data w today slot digits img =
             ([PostJson (API_DEAR @ ''last-digit/'') (digit_payload today slot d1),
               PostJson (API_DEAR @ ''last-two-digit/'') (digit_payload today slot d2),
               PostJson (API_DEAR @ ''last-three-digit/'') (digit_payload today slot d3),
               PostFax API_FAX [(''type'', ''dear''), (''date'', today), (''time'', slot)] jpg], None))"
      by (intro conjI)
  qed
  show ?thesis
    using c1 c2 c3 c4 digit_requests_three [of today slot v1 v2 v3] c6 c5 c7
    by (intro conjI) assumption+
qed

theorem digit_payload_shape_witness:
  "map_of (digit_payload ''2026-02-03'' ''mor'' ''97'') ''mor'' = Some (JStr ''97'') \<and>
   map_of (digit_payload ''2026-02-03'' ''mor'' ''97'') ''day'' = Some (JStr ''-'') \<and>
   map_of (digit_payload ''2026-02-03'' ''mor'' ''97'') ''evn'' = Some (JStr ''-'') \<and>
   map_of (digit_payload ''2026-02-03'' ''mor'' ''97'') ''date'' = Some (JStr ''2026-02-03'') \<and>
   digit_payload ''2026-02-03'' ''mor'' ''97'' =
     [(''date'', JStr ''2026-02-03''), (''mor'', JStr ''97''), (''day'', JStr ''-''), (''evn'', JStr ''-'')] \<and>
   post_data
     \<lparr>find_img = (\<lambda>u. Inr None), fetch_image = (\<lambda>u. Inr ''image''), readtext = (\<lambda>b. Inr [''82497'']),
        to_jpeg = (\<lambda>b. Inr b), send = (\<lambda>r. Inr ())\<rparr>
     ''2026-02-03'' ''mor'' [(''l1'', ''7''), (''l2'', ''97''), (''l3'', ''497'')] ''image'' =
     ([PostJson (API_DEAR @ ''last-digit/'')
         [(''date'', JStr ''2026-02-03''), (''mor'', JStr ''7''), (''day'', JStr ''-''), (''evn'', JStr ''-'')],
       PostJson (API_DEAR @ ''last-two-digit/'')
         [(''date'', JStr ''2026-02-03''), (''mor'', JStr ''97''), (''day'', JStr ''-''), (''evn'', JStr ''-'')],
       PostJson (API_DEAR @ ''last-three-digit/'')
         [(''date'', JStr ''2026-02-03''), (''mor'', JStr ''497''), (''day'', JStr ''-''), (''evn'', JStr ''-'')],
       PostFax API_FAX [(''type'', ''dear''), (''date'', ''2026-02-03''), (''time'', ''mor'')] ''image''],
      None)"
proof -
  let ?w = "\<lparr>find_img = (\<lambda>u. Inr None), fetch_image = (\<lambda>u. Inr ''image''), readtext = (\<lambda>b. Inr [''82497'']),
        to_jpeg = (\<lambda>b. Inr b), send = (\<lambda>r. Inr ())\<rparr>"
  let ?digits = "[(''l1'', ''7''), (''l2'', ''97''), (''l3'', ''497'')]"
  have slot: "''mor'' \<in> {''mor'', ''day'', ''evn''}"
    by simp
  note shape = digit_payload_shape [OF slot, where today = "''2026-02-03''" and v = "''97''"
      and w = ?w and digits = ?digits and img = "''image''"
      and ?d1.0 = "''7''" and ?d2.0 = "''97''" and ?d3.0 = "''497''"]
  from shape have target: "map_of (digit_payload ''2026-02-03'' ''mor'' ''97'') ''mor'' = Some (JStr ''97'')"
    by (rule conjunct1)
  from shape have others: "\<forall>s\<in>{''mor'', ''day'', ''evn''}. s \<noteq> ''mor'' \<longrightarrow>
        map_of (digit_payload ''2026-02-03'' ''mor'' ''97'') s = Some (JStr ''-'')"
    by (rule conjunct2 [THEN conjunct1])
  from shape have date: "map_of (digit_payload ''2026-02-03'' ''mor'' ''97'') ''date'' = Some (JStr ''2026-02-03'')"
    by (rule conjunct2 [THEN conjunct2, THEN conjunct1])
  from others have day: "map_of (digit_payload ''2026-02-03'' ''mor'' ''97'') ''day'' = Some (JStr ''-'')"
    by simp
  from others have evn: "map_of (digit_payload ''2026-02-03'' ''mor'' ''97'') ''evn'' = Some (JStr ''-'')"
    by simp
  have whole: "digit_payload ''2026-02-03'' ''mor'' val =
     [(''date'', JStr ''2026-02-03''), (''mor'', JStr val), (''day'', JStr ''-''), (''evn'', JStr ''-'')]" for val
    by (simp add: digit_payload_def)
  have given: "map_of ?digits ''l1'' = Some ''7'' \<and> map_of ?digits ''l2'' = Some ''97'' \<and>
      map_of ?digits ''l3'' = Some ''497''"
    by simp
  have fine: "(\<forall>r. send ?w r = Inr ()) \<and> to_jpeg ?w ''image'' = Inr ''image''"
    by simp
  note sent = shape [THEN conjunct2, THEN conjunct2, THEN conjunct2, THEN conjunct2, THEN conjunct2,
      THEN conjunct2, THEN conjunct2, THEN mp, OF given, THEN conjunct2, THEN conjunct2, THEN spec,
      THEN mp, OF fine]
  from sent have posts: "post_data ?w ''2026-02-03'' ''mor'' ?digits ''image'' =
     ([PostJson (API_DEAR @ ''last-digit/'')
         [(''date'', JStr ''2026-02-03''), (''mor'', JStr ''7''), (''day'', JStr ''-''), (''evn'', JStr ''-'')],
       PostJson (API_DEAR @ ''last-two-digit/'')
         [(''date'', JStr ''2026-02-03''), (''mor'', JStr ''97''), (''day'', JStr ''-''), (''evn'', JStr ''-'')],
       PostJson (API_DEAR @ ''last-three-digit/'')
         [(''date'', JStr ''2026-02-03''), (''mor'', JStr ''497''), (''day'', JStr ''-''), (''evn'', JStr ''-'')],
       PostFax API_FAX [(''type'', ''dear''), (''date'', ''2026-02-03''), (''time'', ''mor'')] ''image''],
      None)"
    unfolding whole .
  from target day evn date whole [of "''97''"] posts show ?thesis
    by (intro conjI)
qed

section \<open>The gate on stale content\<close>

lemma py_in_iff: "py_in p s \<longleftrightarrow> (\<exists>pre post. s = pre @ p @ post)"
proof (induction s)
  case Nil
  then show ?case by auto
next
  case (Cons c cs)
  show ?case
  proof
    assume "py_in p (c # cs)"
    then consider "prefix p (c # cs)" | "py_in p cs" by auto
    then show "\<exists>pre post. c # cs = pre @ p @ post"
    proof cases
      case 1
      then obtain post where "c # cs = p @ post" by (auto simp: prefix_def)
      then have "c # cs = [] @ p @ post" by simp
      then show ?thesis by blast
    next
      case 2
      with Cons.IH obtain pre post where "cs = pre @ p @ post" by blast
      then have "c # cs = (c # pre) @ p @ post" by simp
      then show ?thesis by blast
    qed
  next
    assume "\<exists>pre post. c # cs = pre @ p @ post"
    then obtain pre post where eq: "c # cs = pre @ p @ post" by blast
    show "py_in p (c # cs)"
    proof (cases pre)
      case Nil
      with eq have "prefix p (c # cs)" by (simp add: prefix_def)
      then show ?thesis by simp
    next
      case (Cons a pre')
      with eq have "cs = pre' @ p @ post" by simp
      with Cons.IH have "py_in p cs" by blast
      then show ?thesis by simp
    qed
  qed
qed

lemma process_slots_entries:
  "set (process_slots w year month day slots) = (\<lambda>s. (s, process_slot w year month day s)) ` set slots"
  by (induction slots) auto

text \<open>
  Claim C9. Stale-content date gate: for every slot whose located image URL does not
  contain the substring \<^verbatim>\<open>/YYYY/MM/\<close> of the current IST year and month, the body of the
  loop ends at the \<^verbatim>\<open>continue\<close> of the gate: no exception is raised, no request is sent
  for the slot (no digit post, no snapshot post), and the loop goes on with the next
  slot. In a run of \<^verbatim>\<open>main\<close> that plans the slot, the entry of the slot has no request.
\<close>

theorem stale_image_skipped:
  assumes cfg: "map_of SLOT_CONFIG slot = Some (url, h)"
    and img: "find_img w url = Inr (Some (Some img_url))"
    and stale: "\<not> (\<exists>pre post. img_url = pre @ date_path year month @ post)"
  shows "process_slot w year month day slot = ([], SkippedOld) \<and>
     process_slots w year month day (slot # rest) =
       (slot, [], SkippedOld) # process_slots w year month day rest \<and>
     (\<forall>needed. get_needed_slots hour (dear_api_get_today_state (today_str year month day) got) = Inr needed \<longrightarrow>
        slot \<in> set needed \<longrightarrow>
        (\<exists>entries. main w year month day hour got = Inr entries \<and> length entries = length needed \<and>
           (\<forall>sent res. (slot, sent, res) \<in> set entries \<longrightarrow> sent = [] \<and> res = SkippedOld)))"
proof -
  from stale have no: "\<not> py_in (date_path year month) img_url"
    by (simp add: py_in_iff)
  from cfg img no have one: "process_slot w year month day slot = ([], SkippedOld)"
    by (simp add: process_slot_def py_item_def)
  then have loop: "process_slots w year month day (slot # rest) =
       (slot, [], SkippedOld) # process_slots w year month day rest"
    by simp
  have run: "\<exists>entries. main w year month day hour got = Inr entries \<and> length entries = length needed \<and>
           (\<forall>sent res. (slot, sent, res) \<in> set entries \<longrightarrow> sent = [] \<and> res = SkippedOld)"
    if n: "get_needed_slots hour (dear_api_get_today_state (today_str year month day) got) = Inr needed"
    for needed
  proof -
    from n have m: "main w year month day hour got = Inr (process_slots w year month day needed)"
      by (simp add: main_def Let_def)
    have len: "length (process_slots w year month day needed) = length needed"
      by (induction needed) auto
    have each: "sent = [] \<and> res = SkippedOld"
      if "(slot, sent, res) \<in> set (process_slots w year month day needed)" for sent res
      using that one unfolding process_slots_entries by auto
    from m len each show ?thesis by blast
  qed
  from one loop run show ?thesis by blast
qed

theorem stale_image_skipped_witness:
  "process_slot
     \<lparr>find_img = (\<lambda>u. Inr (Some (Some ''https://lotterysambad.one/wp-content/uploads/2026/01/MD310126.jpg''))),
      fetch_image = (\<lambda>u. Inr ''image''), readtext = (\<lambda>b. Inr [''82497'']),
      to_jpeg = (\<lambda>b. Inr b), send = (\<lambda>r. Inr ())\<rparr> 2026 2 3 ''mor'' = ([], SkippedOld) \<and>
   main
     \<lparr>find_img = (\<lambda>u. Inr (Some (Some ''https://lotterysambad.one/wp-content/uploads/2026/01/MD310126.jpg''))),
      fetch_image = (\<lambda>u. Inr ''image''), readtext = (\<lambda>b. Inr [''82497'']),
      to_jpeg = (\<lambda>b. Inr b), send = (\<lambda>r. Inr ())\<rparr> 2026 2 3 14 (Inl ConnectionError) =
     Inr [(''mor'', [], SkippedOld)]"
proof -
  let ?src = "''https://lotterysambad.one/wp-content/uploads/2026/01/MD310126.jpg''"
  let ?w = "\<lparr>find_img = (\<lambda>u. Inr (Some (Some ?src))),
      fetch_image = (\<lambda>u. Inr ''image''), readtext = (\<lambda>b. Inr [''82497'']),
      to_jpeg = (\<lambda>b. Inr b), send = (\<lambda>r. Inr ())\<rparr>"
  let ?url = "''https://lotterysambad.one/nagaland-state-lottery-result-1-pm/''"
  have cfg: "map_of SLOT_CONFIG ''mor'' = Some (?url, 13)"
    by (simp add: SLOT_CONFIG_def)
  have img: "find_img ?w ?url = Inr (Some (Some ?src))"
    by simp
  have nopy: "\<not> py_in (date_path 2026 2) ?src"
    by code_simp
  have stale: "\<not> (\<exists>pre post. ?src = pre @ date_path 2026 2 @ post)"
    using nopy unfolding py_in_iff .
  have needed: "get_needed_slots 14 (dear_api_get_today_state (today_str 2026 2 3) (Inl ConnectionError)) =
      Inr [''mor'']"
    by (simp add: dear_api_get_today_state_def dear_state_try_def fresh_record_def
        get_needed_slots_dict)
  note gate = stale_image_skipped [OF cfg img stale, of 3 "[]" 14 "Inl ConnectionError"]
  from gate have one: "process_slot ?w 2026 2 3 ''mor'' = ([], SkippedOld)"
    by (rule conjunct1)
  from gate have loop: "process_slots ?w 2026 2 3 [''mor''] =
      (''mor'', [], SkippedOld) # process_slots ?w 2026 2 3 []"
    by (rule conjunct2 [THEN conjunct1])
  from needed have m: "main ?w 2026 2 3 14 (Inl ConnectionError) = Inr (process_slots ?w 2026 2 3 [''mor''])"
    by (simp add: main_def Let_def)
  have run: "main ?w 2026 2 3 14 (Inl ConnectionError) = Inr [(''mor'', [], SkippedOld)]"
    unfolding m loop by simp
  from one run show ?thesis
    by (rule conjI)
qed

section \<open>The lucky-number backfill\<close>

lemma str_int_digit:
  assumes "0 \<le> a" "a \<le> 9"
  shows "str_int a = [char_of (48 + nat a)]"
  using assms by (simp add: str_int_def)

lemma digit_char_inj:
  assumes "a < 10" "b < 10"
  shows "char_of (48 + a) = (char_of (48 + b) :: char) \<longleftrightarrow> a = (b::nat)"
proof -
  from assms have "(48 + a) mod 256 = 48 + a" "(48 + b) mod 256 = 48 + b"
    by simp_all
  then show ?thesis
    by (simp add: char_of_eq_iff take_bit_eq_mod)
qed

lemma digit_char_is_digit:
  assumes "a < 10"
  shows "is_digit (char_of (48 + (a::nat)))"
proof -
  from assms have "a = 0 \<or> a = 1 \<or> a = 2 \<or> a = 3 \<or> a = 4 \<or>
      a = 5 \<or> a = 6 \<or> a = 7 \<or> a = 8 \<or> a = 9"
    by arith
  moreover have "\<forall>n \<in> set [0, 1, 2, 3, 4, 5, 6, 7, 8, 9::nat]. is_digit (char_of (48 + n))"
    by code_simp
  ultimately show ?thesis by auto
qed

lemma randint_digit: "randint 0 9 u = int (u mod 10)"
  by (simp add: randint_def)

lemma randint_range: "0 \<le> randint 0 9 u \<and> randint 0 9 u \<le> 9"
  unfolding randint_digit by simp

lemma lucky_draws_unfold:
  "lucky_draws rand i =
     [randint 0 9 (rand i), randint 0 9 (rand (i + 1)), randint 0 9 (rand (i + 2)),
      randint 0 9 (rand (i + 3))]"
proof -
  have "[0..<4] = [0, 1, 2, 3::nat]" by (simp add: upt_rec)
  then show ?thesis by (simp add: lucky_draws_def)
qed

lemma four_cases: "(\<forall>k<4. P k) \<longleftrightarrow> P 0 \<and> P 1 \<and> P 2 \<and> P (3::nat)"
proof -
  have "k < 4 \<longleftrightarrow> k = 0 \<or> k = 1 \<or> k = 2 \<or> k = 3" for k :: nat
    by arith
  then show ?thesis by auto
qed

lemma lucky_string_of_digits:
  assumes "0 \<le> a \<and> a \<le> 9" "0 \<le> b \<and> b \<le> 9" "0 \<le> c \<and> c \<le> 9" "0 \<le> d \<and> d \<le> 9"
  shows "py_join '', '' (map str_int [a, b, c, d]) =
     [char_of (48 + nat a), CHR '','', CHR '' '', char_of (48 + nat b), CHR '','', CHR '' '',
      char_of (48 + nat c), CHR '','', CHR '' '', char_of (48 + nat d)]"
  using assms by (simp add: str_int_digit)

lemma generate_lucky_string_chars:
  "generate_lucky_string rand i =
     [char_of (48 + rand i mod 10), CHR '','', CHR '' '',
      char_of (48 + rand (i + 1) mod 10), CHR '','', CHR '' '',
      char_of (48 + rand (i + 2) mod 10), CHR '','', CHR '' '',
      char_of (48 + rand (i + 3) mod 10)]"
proof -
  have "generate_lucky_string rand i =
      py_join '', '' (map str_int [randint 0 9 (rand i), randint 0 9 (rand (i + 1)),
        randint 0 9 (rand (i + 2)), randint 0 9 (rand (i + 3))])"
    by (simp only: generate_lucky_string_def lucky_draws_unfold)
  also have "\<dots> = [char_of (48 + nat (randint 0 9 (rand i))), CHR '','', CHR '' '',
      char_of (48 + nat (randint 0 9 (rand (i + 1)))), CHR '','', CHR '' '',
      char_of (48 + nat (randint 0 9 (rand (i + 2)))), CHR '','', CHR '' '',
      char_of (48 + nat (randint 0 9 (rand (i + 3))))]"
    by (rule lucky_string_of_digits) (rule randint_range)+
  finally show ?thesis
    by (simp add: randint_digit)
qed

lemma generate_lucky_string_inj:
  "generate_lucky_string rand i = generate_lucky_string rand' j \<longleftrightarrow>
     lucky_draws rand i = lucky_draws rand' j"
proof -
  have inj: "char_of (48 + u mod 10) = (char_of (48 + v mod 10) :: char) \<longleftrightarrow> u mod 10 = v mod 10"
    for u v :: nat
    by (rule digit_char_inj) simp_all
  show ?thesis
    unfolding generate_lucky_string_chars lucky_draws_unfold randint_digit
    by (simp only: list.inject inj simp_thms of_nat_eq_iff)
qed

lemma card_raw_values: "card raw_values = 10"
  by (simp add: raw_values_def)

lemma card_four_calls: "card four_calls = 10 ^ 4"
  by (simp add: four_calls_def card_raw_values card_cartesian_product)

lemma draws_of_raw:
  assumes "u0 < 10" "u1 < 10" "u2 < 10" "u3 < 10"
  shows "lucky_draws (stream_of (u0, u1, u2, u3)) 0 = [int u0, int u1, int u2, int u3]"
  using assms by (simp add: lucky_draws_unfold randint_digit)

lemma draws_of_calls:
  assumes "(u0, u1, u2, u3) \<in> four_calls"
  shows "lucky_draws (stream_of (u0, u1, u2, u3)) 0 = [int u0, int u1, int u2, int u3]"
  using assms by (simp add: draws_of_raw four_calls_def raw_values_def)

lemma marginal_event:
  assumes "0 \<le> d" "d \<le> 9"
  shows "{w \<in> four_calls. lucky_draws (stream_of w) 0 ! 0 = d} = {nat d} \<times> raw_values \<times> raw_values \<times> raw_values"
    and "{w \<in> four_calls. lucky_draws (stream_of w) 0 ! Suc 0 = d} = raw_values \<times> {nat d} \<times> raw_values \<times> raw_values"
    and "{w \<in> four_calls. lucky_draws (stream_of w) 0 ! 2 = d} = raw_values \<times> raw_values \<times> {nat d} \<times> raw_values"
    and "{w \<in> four_calls. lucky_draws (stream_of w) 0 ! 3 = d} = raw_values \<times> raw_values \<times> raw_values \<times> {nat d}"
proof -
  from assms have nd: "nat d < 10" "int (nat d) = d"
    by auto
  show "{w \<in> four_calls. lucky_draws (stream_of w) 0 ! 0 = d} = {nat d} \<times> raw_values \<times> raw_values \<times> raw_values"
    using nd by (auto simp add: four_calls_def raw_values_def draws_of_raw)
  show "{w \<in> four_calls. lucky_draws (stream_of w) 0 ! Suc 0 = d} = raw_values \<times> {nat d} \<times> raw_values \<times> raw_values"
    using nd by (auto simp add: four_calls_def raw_values_def draws_of_raw)
  show "{w \<in> four_calls. lucky_draws (stream_of w) 0 ! 2 = d} = raw_values \<times> raw_values \<times> {nat d} \<times> raw_values"
    using nd by (auto simp add: four_calls_def raw_values_def draws_of_raw)
  show "{w \<in> four_calls. lucky_draws (stream_of w) 0 ! 3 = d} = raw_values \<times> raw_values \<times> raw_values \<times> {nat d}"
    using nd by (auto simp add: four_calls_def raw_values_def draws_of_raw)
qed

lemma marginal_card:
  assumes "0 \<le> d" "d \<le> 9" "k < 4"
  shows "card {w \<in> four_calls. lucky_draws (stream_of w) 0 ! k = d} = 10 ^ 3"
proof -
  from \<open>k < 4\<close> consider "k = 0" | "k = 1" | "k = 2" | "k = 3" by arith
  then show ?thesis
    by cases (simp_all add: marginal_event [OF assms(1,2)] card_raw_values card_cartesian_product)
qed

lemma joint_draws_event:
  assumes "0 \<le> a \<and> a \<le> 9" "0 \<le> b \<and> b \<le> 9" "0 \<le> c \<and> c \<le> 9" "0 \<le> d \<and> d \<le> 9"
  shows "{w \<in> four_calls. lucky_draws (stream_of w) 0 = [a, b, c, d]} = {(nat a, nat b, nat c, nat d)}"
  using assms by (auto simp add: four_calls_def raw_values_def draws_of_raw)

lemma joint_event:
  assumes "0 \<le> a \<and> a \<le> 9" "0 \<le> b \<and> b \<le> 9" "0 \<le> c \<and> c \<le> 9" "0 \<le> d \<and> d \<le> 9"
  shows "{w \<in> four_calls. generate_lucky_string (stream_of w) 0 = py_join '', '' (map str_int [a, b, c, d])} =
     {(nat a, nat b, nat c, nat d)}"
proof -
  from assms have lt: "nat a < 10" "nat b < 10" "nat c < 10" "nat d < 10"
    and ints: "int (nat a) = a" "int (nat b) = b" "int (nat c) = c" "int (nat d) = d"
    by auto
  have gen: "generate_lucky_string (stream_of (nat a, nat b, nat c, nat d)) 0 =
      py_join '', '' (map str_int [a, b, c, d])"
    unfolding generate_lucky_string_def draws_of_raw [OF lt] ints by (rule refl)
  have mem: "(nat a, nat b, nat c, nat d) \<in> four_calls"
    using lt by (simp add: four_calls_def raw_values_def)
  have eq: "w = (nat a, nat b, nat c, nat d)"
    if w: "w \<in> four_calls"
      and s: "generate_lucky_string (stream_of w) 0 = py_join '', '' (map str_int [a, b, c, d])" for w
  proof -
    obtain u0 u1 u2 u3 where w4: "w = (u0, u1, u2, u3)"
      by (cases w) auto
    from s gen have "generate_lucky_string (stream_of w) 0 =
        generate_lucky_string (stream_of (nat a, nat b, nat c, nat d)) 0"
      by simp
    then have "lucky_draws (stream_of w) 0 = lucky_draws (stream_of (nat a, nat b, nat c, nat d)) 0"
      by (simp only: generate_lucky_string_inj)
    with w mem assms show ?thesis
      unfolding w4 by (auto simp add: draws_of_calls)
  qed
  from gen mem eq show ?thesis by blast
qed

lemma update_loop_types:
  "r \<in> set (update_loop today get_lucky rand i types) \<Longrightarrow>
     \<exists>t \<in> set types. \<not> check_if_exists (get_lucky t) \<and> request_type r = Some (JStr t)"
proof (induction types arbitrary: i)
  case Nil
  then show ?case by simp
next
  case (Cons t rest)
  show ?case
  proof (cases "check_if_exists (get_lucky t)")
    case True
    with Cons.prems have "r \<in> set (update_loop today get_lucky rand i rest)" by simp
    from Cons.IH [OF this] show ?thesis by auto
  next
    case False
    with Cons.prems consider
        "r = PostJson API_URL [(''type'', JStr t), (''date'', JStr today),
           (''lucky'', JStr (generate_lucky_string rand i)), (''active'', JBool True)]"
      | "r \<in> set (update_loop today get_lucky rand (i + 4) rest)"
      by auto
    then show ?thesis
    proof cases
      case 1
      with False show ?thesis by simp
    next
      case 2
      from Cons.IH [OF this] show ?thesis by auto
    qed
  qed
qed

lemma update_loop_posts:
  "t \<in> set types \<Longrightarrow> \<not> check_if_exists (get_lucky t) \<Longrightarrow>
     \<exists>j. PostJson API_URL [(''type'', JStr t), (''date'', JStr today),
           (''lucky'', JStr (generate_lucky_string rand j)), (''active'', JBool True)]
         \<in> set (update_loop today get_lucky rand i types)"
proof (induction types arbitrary: i)
  case Nil
  then show ?case by simp
next
  case (Cons u rest)
  show ?case
  proof (cases "u = t")
    case True
    with Cons.prems(2) show ?thesis by (auto intro: exI [of _ i])
  next
    case False
    with Cons.prems have "t \<in> set rest" by simp
    from Cons.IH [OF this Cons.prems(2)] show ?thesis
      by (cases "check_if_exists (get_lucky u)") auto
  qed
qed

lemma not_in_image: "\<forall>r \<in> S. f r \<noteq> y \<Longrightarrow> y \<notin> f ` S"
  by blast

lemma update_loop_all_exist:
  "\<forall>t \<in> set types. check_if_exists (get_lucky t) \<Longrightarrow> update_loop today get_lucky rand i types = []"
  by (induction types arbitrary: i) auto

lemma check_if_exists_lucky:
  assumes "map_of kvs ''lucky'' = Some (JStr v)" "v \<noteq> []"
  shows "check_if_exists (Inr (Response 200 (Some (JDict kvs))))"
  using assms by (simp add: check_if_exists_def check_try_def response_json_def)

lemma check_if_exists_error: "\<not> check_if_exists (Inl e)"
  by (simp add: check_if_exists_def check_try_def)

lemma check_if_exists_status: "st \<noteq> 200 \<Longrightarrow> \<not> check_if_exists (Inr (Response st body))"
  by (simp add: check_if_exists_def check_try_def)



text \<open>
  Claim C8. Lucky-number backfill. The generator makes four calls of
  \<^verbatim>\<open>random.randint(0, 9)\<close>; whatever the raw values of the random source, each of the four
  draws is an integer from 0 to 9, and the result is exactly the four digits of the draws
  in order, joined by a comma and a space (ten characters); two results are equal exactly
  when the four draws are equal. On the sample space of the four calls (\<open>10 ^ 4\<close> equally
  likely tuples of raw values) each digit of each draw is given by \<open>10 ^ 3\<close> of the tuples
  (probability \<open>1 / 10\<close>: uniform), and each string of four digits by exactly one of them
  (probability \<open>1 / 10 ^ 4\<close>, the product of the four: independent). For each category,
  when the check finds the status 200 and a non-empty \<^verbatim>\<open>lucky\<close> value it reports that the
  value exists; when it reports so, the run posts nothing for the category; when it
  reports so for every category, the run posts nothing at all.
\<close>

theorem lucky_backfill_skips_existing:
  "length (lucky_draws rand i) = 4 \<and>
   (\<forall>k<4. lucky_draws rand i ! k = randint 0 9 (rand (i + k)) \<and>
      0 \<le> lucky_draws rand i ! k \<and> lucky_draws rand i ! k \<le> 9) \<and>
   generate_lucky_string rand i =
     [char_of (48 + nat (lucky_draws rand i ! 0)), CHR '','', CHR '' '',
      char_of (48 + nat (lucky_draws rand i ! 1)), CHR '','', CHR '' '',
      char_of (48 + nat (lucky_draws rand i ! 2)), CHR '','', CHR '' '',
      char_of (48 + nat (lucky_draws rand i ! 3))] \<and>
   length (generate_lucky_string rand i) = 10 \<and>
   (\<forall>k<4. is_digit (generate_lucky_string rand i ! (3 * k))) \<and>
   (generate_lucky_string rand i = generate_lucky_string rand' j \<longleftrightarrow>
      lucky_draws rand i = lucky_draws rand' j) \<and>
   card four_calls = 10 ^ 4 \<and>
   (\<forall>k<4. \<forall>d. 0 \<le> d \<and> d \<le> 9 \<longrightarrow>
      card {w \<in> four_calls. lucky_draws (stream_of w) 0 ! k = d} = 10 ^ 3) \<and>
   (\<forall>a b c d. 0 \<le> a \<and> a \<le> 9 \<and> 0 \<le> b \<and> b \<le> 9 \<and> 0 \<le> c \<and> c \<le> 9 \<and> 0 \<le> d \<and> d \<le> 9 \<longrightarrow>
      card {w \<in> four_calls. lucky_draws (stream_of w) 0 = [a, b, c, d]} = 1 \<and>
      card {w \<in> four_calls.
              generate_lucky_string (stream_of w) 0 = py_join '', '' (map str_int [a, b, c, d])} = 1) \<and>
   (get_lucky t = Inr (Response 200 (Some (JDict kvs))) \<longrightarrow> map_of kvs ''lucky'' = Some (JStr v) \<longrightarrow>
      v \<noteq> [] \<longrightarrow> check_if_exists (get_lucky t)) \<and>
   (check_if_exists (get_lucky t) \<longrightarrow>
      (\<forall>r \<in> set (update_numbers today get_lucky rand). request_type r \<noteq> Some (JStr t))) \<and>
   ((\<forall>u \<in> set TYPES. check_if_exists (get_lucky u)) \<longrightarrow> update_numbers today get_lucky rand = [])"
proof -
  have c1: "length (lucky_draws rand i) = 4"
    by (simp add: lucky_draws_unfold)
  have c2: "\<forall>k<4. lucky_draws rand i ! k = randint 0 9 (rand (i + k)) \<and>
      0 \<le> lucky_draws rand i ! k \<and> lucky_draws rand i ! k \<le> 9"
    unfolding four_cases lucky_draws_unfold using randint_range by simp
  have c3: "generate_lucky_string rand i =
     [char_of (48 + nat (lucky_draws rand i ! 0)), CHR '','', CHR '' '',
      char_of (48 + nat (lucky_draws rand i ! 1)), CHR '','', CHR '' '',
      char_of (48 + nat (lucky_draws rand i ! 2)), CHR '','', CHR '' '',
      char_of (48 + nat (lucky_draws rand i ! 3))]"
    unfolding generate_lucky_string_chars lucky_draws_unfold randint_digit by simp
  have c4: "length (generate_lucky_string rand i) = 10"
    unfolding generate_lucky_string_chars by simp
  have dig: "is_digit (char_of (48 + u mod 10))" for u :: nat
    by (rule digit_char_is_digit) simp
  have c5: "\<forall>k<4. is_digit (generate_lucky_string rand i ! (3 * k))"
    unfolding four_cases generate_lucky_string_chars using dig by simp
  have c6: "generate_lucky_string rand i = generate_lucky_string rand' j \<longleftrightarrow>
      lucky_draws rand i = lucky_draws rand' j"
    by (rule generate_lucky_string_inj)
  have c7: "card four_calls = 10 ^ 4"
    by (rule card_four_calls)
  have c8: "\<forall>k<4. \<forall>d. 0 \<le> d \<and> d \<le> 9 \<longrightarrow>
      card {w \<in> four_calls. lucky_draws (stream_of w) 0 ! k = d} = 10 ^ 3"
    using marginal_card by blast
  have c9: "\<forall>a b c d. 0 \<le> a \<and> a \<le> 9 \<and> 0 \<le> b \<and> b \<le> 9 \<and> 0 \<le> c \<and> c \<le> 9 \<and> 0 \<le> d \<and> d \<le> 9 \<longrightarrow>
      card {w \<in> four_calls. lucky_draws (stream_of w) 0 = [a, b, c, d]} = 1 \<and>
      card {w \<in> four_calls.
              generate_lucky_string (stream_of w) 0 = py_join '', '' (map str_int [a, b, c, d])} = 1"
  proof (intro allI impI)
    fix a b c d :: int
    assume r: "0 \<le> a \<and> a \<le> 9 \<and> 0 \<le> b \<and> b \<le> 9 \<and> 0 \<le> c \<and> c \<le> 9 \<and> 0 \<le> d \<and> d \<le> 9"
    then have ra: "0 \<le> a \<and> a \<le> 9" and rb: "0 \<le> b \<and> b \<le> 9" and rc: "0 \<le> c \<and> c \<le> 9"
      and rd: "0 \<le> d \<and> d \<le> 9"
      by simp_all
    have "card {w \<in> four_calls. lucky_draws (stream_of w) 0 = [a, b, c, d]} = 1"
      unfolding joint_draws_event [OF ra rb rc rd] by simp
    moreover have "card {w \<in> four_calls.
        generate_lucky_string (stream_of w) 0 = py_join '', '' (map str_int [a, b, c, d])} = 1"
      unfolding joint_event [OF ra rb rc rd] by simp
    ultimately show "card {w \<in> four_calls. lucky_draws (stream_of w) 0 = [a, b, c, d]} = 1 \<and>
      card {w \<in> four_calls.
              generate_lucky_string (stream_of w) 0 = py_join '', '' (map str_int [a, b, c, d])} = 1"
      by (rule conjI)
  qed
  have c10: "get_lucky t = Inr (Response 200 (Some (JDict kvs))) \<longrightarrow> map_of kvs ''lucky'' = Some (JStr v) \<longrightarrow>
        v \<noteq> [] \<longrightarrow> check_if_exists (get_lucky t)"
    by (simp add: check_if_exists_lucky)
  have c11: "check_if_exists (get_lucky t) \<longrightarrow>
        (\<forall>r \<in> set (update_numbers today get_lucky rand). request_type r \<noteq> Some (JStr t))"
  proof (intro impI ballI notI)
    fix r
    assume ex: "check_if_exists (get_lucky t)"
      and r: "r \<in> set (update_numbers today get_lucky rand)"
      and ty: "request_type r = Some (JStr t)"
    from r have "r \<in> set (update_loop today get_lucky rand 0 TYPES)"
      by (simp add: update_numbers_def)
    from update_loop_types [OF this] ty ex show False by auto
  qed
  have c12: "(\<forall>u \<in> set TYPES. check_if_exists (get_lucky u)) \<longrightarrow> update_numbers today get_lucky rand = []"
    by (simp add: update_numbers_def update_loop_all_exist)
  from c1 c2 c3 c4 c5 c6 c7 c8 c9 c10 c11 c12 show ?thesis
    by (intro conjI) assumption+
qed

theorem lucky_backfill_skips_existing_witness:
  "generate_lucky_string (\<lambda>k. if k = 0 then 19 else if k = 1 then 8 else if k = 2 then 0 else 7) 0 = ''9, 8, 0, 7'' \<and>
   length (generate_lucky_string (\<lambda>k. if k = 0 then 19 else if k = 1 then 8 else if k = 2 then 0 else 7) 0) = 10 \<and>
   card four_calls = 10 ^ 4 \<and>
   card {w \<in> four_calls. lucky_draws (stream_of w) 0 ! 2 = 0} = 10 ^ 3 \<and>
   card {w \<in> four_calls. generate_lucky_string (stream_of w) 0 = ''9, 8, 0, 7''} = 1 \<and>
   check_if_exists
     ((\<lambda>t. if t = ''dear'' then Inr (Response 200 (Some (JDict [(''lucky'', JStr ''1, 2, 3, 4'')])))
           else Inl ConnectionError) ''dear'') \<and>
   Some (JStr ''dear'') \<notin>
     request_type `
       set (update_numbers ''2026-02-03''
              (\<lambda>t. if t = ''dear'' then Inr (Response 200 (Some (JDict [(''lucky'', JStr ''1, 2, 3, 4'')])))
           else Inl ConnectionError)
              (\<lambda>k. if k = 0 then 19 else if k = 1 then 8 else if k = 2 then 0 else 7))"
proof -
  let ?rand = "\<lambda>k::nat. if k = 0 then 19 else if k = 1 then 8 else if k = 2 then 0 else (7::nat)"
  let ?get = "\<lambda>t. if t = ''dear'' then Inr (Response 200 (Some (JDict [(''lucky'', JStr ''1, 2, 3, 4'')])))
           else Inl ConnectionError"
  note th = lucky_backfill_skips_existing [where rand = ?rand and rand' = ?rand and i = 0 and j = 0
      and get_lucky = ?get and t = "''dear''" and kvs = "[(''lucky'', JStr ''1, 2, 3, 4'')]"
      and v = "''1, 2, 3, 4''" and today = "''2026-02-03''"]
  note gen = th [THEN conjunct2, THEN conjunct2, THEN conjunct1]
  note len = th [THEN conjunct2, THEN conjunct2, THEN conjunct2, THEN conjunct1]
  note space = th [THEN conjunct2, THEN conjunct2, THEN conjunct2, THEN conjunct2, THEN conjunct2, THEN conjunct2, THEN conjunct1]
  note marg = th [THEN conjunct2, THEN conjunct2, THEN conjunct2, THEN conjunct2, THEN conjunct2, THEN conjunct2, THEN conjunct2, THEN conjunct1]
  note joint = th [THEN conjunct2, THEN conjunct2, THEN conjunct2, THEN conjunct2, THEN conjunct2, THEN conjunct2, THEN conjunct2, THEN conjunct2, THEN conjunct1]
  note ex = th [THEN conjunct2, THEN conjunct2, THEN conjunct2, THEN conjunct2, THEN conjunct2, THEN conjunct2, THEN conjunct2, THEN conjunct2, THEN conjunct2, THEN conjunct1]
  note skip = th [THEN conjunct2, THEN conjunct2, THEN conjunct2, THEN conjunct2, THEN conjunct2, THEN conjunct2, THEN conjunct2, THEN conjunct2, THEN conjunct2, THEN conjunct2, THEN conjunct1]
  have chars: "[char_of (48 + nat (lucky_draws ?rand 0 ! 0)), CHR '','', CHR '' '',
      char_of (48 + nat (lucky_draws ?rand 0 ! 1)), CHR '','', CHR '' '',
      char_of (48 + nat (lucky_draws ?rand 0 ! 2)), CHR '','', CHR '' '',
      char_of (48 + nat (lucky_draws ?rand 0 ! 3))] = ''9, 8, 0, 7''"
    by code_simp
  from gen chars have a: "generate_lucky_string ?rand 0 = ''9, 8, 0, 7''"
    by (rule trans)
  have str: "py_join '', '' (map str_int [9, 8, 0, 7]) = ''9, 8, 0, 7''"
    by code_simp
  have rng: "0 \<le> (9::int) \<and> (9::int) \<le> 9 \<and> 0 \<le> (8::int) \<and> (8::int) \<le> 9 \<and>
      0 \<le> (0::int) \<and> (0::int) \<le> 9 \<and> 0 \<le> (7::int) \<and> (7::int) \<le> 9"
    by simp
  from joint [rule_format, OF rng]
  have j: "card {w \<in> four_calls. generate_lucky_string (stream_of w) 0 = ''9, 8, 0, 7''} = 1"
    unfolding str by (rule conjunct2)
  have two: "(2::nat) < 4" and zero: "0 \<le> (0::int) \<and> (0::int) \<le> 9"
    by simp_all
  from marg [rule_format, OF two zero]
  have m: "card {w \<in> four_calls. lucky_draws (stream_of w) 0 ! 2 = 0} = 10 ^ 3" .
  from ex have c: "check_if_exists (?get ''dear'')"
    by simp
  from c skip have "\<forall>r \<in> set (update_numbers ''2026-02-03'' ?get ?rand). request_type r \<noteq> Some (JStr ''dear'')"
    by (rule rev_mp)
  then have d: "Some (JStr ''dear'') \<notin> request_type ` set (update_numbers ''2026-02-03'' ?get ?rand)"
    by (rule not_in_image)
  from a len space m j c d show ?thesis
    by (intro conjI) assumption+
qed

text \<open>
  Claim C10. The existence check returns \<^verbatim>\<open>False\<close> whenever the GET raises an exception
  or returns a status other than 200. So for every category of \<^verbatim>\<open>TYPES\<close>, a run in which
  the check of the category meets such an error posts a newly generated value for it,
  whatever the remote side holds: the run sees the remote side only through the GET. A
  category is posted exactly when its check returns \<^verbatim>\<open>False\<close>, so the skip holds only on
  the runs where the check succeeds and finds a value.
\<close>

theorem check_failure_posts_fresh_value:
  "\<not> check_if_exists (Inl e) \<and>
   (st \<noteq> 200 \<longrightarrow> \<not> check_if_exists (Inr (Response st body))) \<and>
   (t \<in> set TYPES \<longrightarrow> (get_lucky t = Inl e \<or> (get_lucky t = Inr (Response st body) \<and> st \<noteq> 200)) \<longrightarrow>
      (\<exists>j. PostJson API_URL [(''type'', JStr t), (''date'', JStr today),
              (''lucky'', JStr (generate_lucky_string rand j)), (''active'', JBool True)]
            \<in> set (update_numbers today get_lucky rand))) \<and>
   (t \<in> set TYPES \<longrightarrow>
      ((\<exists>r \<in> set (update_numbers today get_lucky rand). request_type r = Some (JStr t)) \<longleftrightarrow>
       \<not> check_if_exists (get_lucky t)))"
proof -
  have c1: "\<not> check_if_exists (Inl e)"
    by (rule check_if_exists_error)
  have c2: "st \<noteq> 200 \<longrightarrow> \<not> check_if_exists (Inr (Response st body))"
    by (simp add: check_if_exists_status)
  have post: "\<exists>j. PostJson API_URL [(''type'', JStr t), (''date'', JStr today),
              (''lucky'', JStr (generate_lucky_string rand j)), (''active'', JBool True)]
            \<in> set (update_numbers today get_lucky rand)"
    if "t \<in> set TYPES" "\<not> check_if_exists (get_lucky t)"
    unfolding update_numbers_def using that by (rule update_loop_posts)
  have c3: "t \<in> set TYPES \<longrightarrow> (get_lucky t = Inl e \<or> (get_lucky t = Inr (Response st body) \<and> st \<noteq> 200)) \<longrightarrow>
      (\<exists>j. PostJson API_URL [(''type'', JStr t), (''date'', JStr today),
              (''lucky'', JStr (generate_lucky_string rand j)), (''active'', JBool True)]
            \<in> set (update_numbers today get_lucky rand))"
  proof (intro impI)
    assume t: "t \<in> set TYPES"
      and "get_lucky t = Inl e \<or> (get_lucky t = Inr (Response st body) \<and> st \<noteq> 200)"
    then have "\<not> check_if_exists (get_lucky t)"
      using c1 c2 by auto
    with t show "\<exists>j. PostJson API_URL [(''type'', JStr t), (''date'', JStr today),
              (''lucky'', JStr (generate_lucky_string rand j)), (''active'', JBool True)]
            \<in> set (update_numbers today get_lucky rand)"
      by (rule post)
  qed
  have c4: "t \<in> set TYPES \<longrightarrow>
      ((\<exists>r \<in> set (update_numbers today get_lucky rand). request_type r = Some (JStr t)) \<longleftrightarrow>
       \<not> check_if_exists (get_lucky t))"
  proof (intro impI iffI)
    assume "\<exists>r \<in> set (update_numbers today get_lucky rand). request_type r = Some (JStr t)"
    then obtain r where r: "r \<in> set (update_loop today get_lucky rand 0 TYPES)"
      and ty: "request_type r = Some (JStr t)"
      by (auto simp add: update_numbers_def)
    from update_loop_types [OF r] ty show "\<not> check_if_exists (get_lucky t)" by auto
  next
    assume "t \<in> set TYPES" "\<not> check_if_exists (get_lucky t)"
    then obtain j where "PostJson API_URL [(''type'', JStr t), (''date'', JStr today),
              (''lucky'', JStr (generate_lucky_string rand j)), (''active'', JBool True)]
            \<in> set (update_numbers today get_lucky rand)"
      using post by blast
    then show "\<exists>r \<in> set (update_numbers today get_lucky rand). request_type r = Some (JStr t)"
      by (rule rev_bexI) simp
  qed
  from c1 c2 c3 c4 show ?thesis
    by (intro conjI) assumption+
qed

theorem check_failure_posts_fresh_value_witness:
  "\<not> check_if_exists (Inl ConnectionError) \<and>
   \<not> check_if_exists (Inr (Response 503 None)) \<and>
   (\<exists>j. PostJson API_URL [(''type'', JStr ''dear''), (''date'', JStr ''2026-02-03''),
           (''lucky'', JStr (generate_lucky_string (\<lambda>k. 7) j)), (''active'', JBool True)]
         \<in> set (update_numbers ''2026-02-03''
                  (\<lambda>t. if t = ''dear'' then Inr (Response 503 None) else Inl ConnectionError) (\<lambda>k. 7)))"
proof -
  let ?get = "\<lambda>t. if t = ''dear'' then Inr (Response 503 None) else Inl ConnectionError"
  note th = check_failure_posts_fresh_value [where e = ConnectionError and st = 503 and body = None
      and t = "''dear''" and get_lucky = ?get and today = "''2026-02-03''" and rand = "\<lambda>k. 7"]
  from th have a: "\<not> check_if_exists (Inl ConnectionError)"
    by (rule conjunct1)
  from th have "(503::nat) \<noteq> 200 \<longrightarrow> \<not> check_if_exists (Inr (Response 503 None))"
    by (rule conjunct2 [THEN conjunct1])
  then have b: "\<not> check_if_exists (Inr (Response 503 None))"
    by simp
  have dear: "''dear'' \<in> set TYPES"
    by (simp add: TYPES_def)
  have fails: "?get ''dear'' = Inl ConnectionError \<or> (?get ''dear'' = Inr (Response 503 None) \<and> (503::nat) \<noteq> 200)"
    by simp
  from th have imp: "''dear'' \<in> set TYPES \<longrightarrow>
      (?get ''dear'' = Inl ConnectionError \<or> (?get ''dear'' = Inr (Response 503 None) \<and> (503::nat) \<noteq> 200)) \<longrightarrow>
      (\<exists>j. PostJson API_URL [(''type'', JStr ''dear''), (''date'', JStr ''2026-02-03''),
              (''lucky'', JStr (generate_lucky_string (\<lambda>k. 7) j)), (''active'', JBool True)]
            \<in> set (update_numbers ''2026-02-03'' ?get (\<lambda>k. 7)))"
    by (rule conjunct2 [THEN conjunct2, THEN conjunct1])
  have c: "\<exists>j. PostJson API_URL [(''type'', JStr ''dear''), (''date'', JStr ''2026-02-03''),
              (''lucky'', JStr (generate_lucky_string (\<lambda>k. 7) j)), (''active'', JBool True)]
            \<in> set (update_numbers ''2026-02-03'' ?get (\<lambda>k. 7))"
    by (rule mp [OF mp [OF imp dear] fails])
  from a b c show ?thesis
    by (intro conjI) assumption+
qed

end
